theory Spec2Isabelle
  imports
    Main
    "HOL-Library.Char_ord"
    "HOL-Library.List_Lexorder"
    "HOL-Library.Multiset"
    "HOL-Library.Sublist"
begin

chapter \<open>Batch renamer: a shallow embedding of the Python sources\<close>

text \<open>
  The development follows the modules of the repository that carry logic:
  \<^verbatim>\<open>file_manager.py\<close> (discovery and renaming), \<^verbatim>\<open>excel_parser.py\<close> (name generation),
  \<^verbatim>\<open>gui_drag_and_drop.py\<close> (template building, marker reordering, entry validation) and
  \<^verbatim>\<open>gui_batch_renamer.py\<close> (the wizard and \<^verbatim>\<open>start_renaming\<close>).
  The first part holds the model, the second part its properties.

  Python strings are modelled as \<^typ>\<open>string\<close>; a \<^typ>\<open>char\<close> is read as the code point
  of the same number, so the model speaks about text whose code points lie below 256.
  Functions of the Python standard library (\<^verbatim>\<open>str.replace\<close>, \<^verbatim>\<open>str.strip\<close>,
  \<^verbatim>\<open>str.lower\<close>, \<^verbatim>\<open>os.path.splitext\<close>, \<^verbatim>\<open>pathlib\<close>, \<^verbatim>\<open>re.match\<close>, \<^verbatim>\<open>round\<close>) and of
  \<^verbatim>\<open>natsort\<close> are modelled next to the source function that calls them. Paths follow
  the POSIX flavour of \<^verbatim>\<open>pathlib\<close> and \<^verbatim>\<open>os.path\<close>. What the operating system, the
  interpreter's float printer, the PDF splitter and the user's dialog answers contribute
  enters the model as parameters.
\<close>

section \<open>The model\<close>

subsection \<open>Python text\<close>

text \<open>\<^verbatim>\<open>str.isalnum\<close>, \<^verbatim>\<open>str.isspace\<close> and the ASCII digits, on code points below 256.\<close>

definition is_alnum :: "char \<Rightarrow> bool" where
  "is_alnum c =
     (let n = (of_char c :: nat)
      in (48 \<le> n \<and> n \<le> 57) \<or> (65 \<le> n \<and> n \<le> 90) \<or> (97 \<le> n \<and> n \<le> 122)
         \<or> n = 170 \<or> n = 178 \<or> n = 179 \<or> n = 181 \<or> n = 185 \<or> n = 186
         \<or> (188 \<le> n \<and> n \<le> 190) \<or> (192 \<le> n \<and> n \<le> 214)
         \<or> (216 \<le> n \<and> n \<le> 246) \<or> (248 \<le> n \<and> n \<le> 255))"

definition is_space :: "char \<Rightarrow> bool" where
  "is_space c =
     (let n = (of_char c :: nat)
      in (9 \<le> n \<and> n \<le> 13) \<or> (28 \<le> n \<and> n \<le> 32) \<or> n = 133 \<or> n = 160)"

definition is_digit :: "char \<Rightarrow> bool" where
  "is_digit c = (let n = (of_char c :: nat) in 48 \<le> n \<and> n \<le> 57)"

text \<open>
  \<^verbatim>\<open>str.lower\<close>: the upper-case letters below 256 are \<open>A\<close> to \<open>Z\<close> and the code points
  192 to 222 without 215; each becomes lower case by adding 32, that is by setting the
  bit of weight 32.
\<close>

definition lower_char :: "char \<Rightarrow> char" where
  "lower_char c =
     (let n = (of_char c :: nat)
      in if (65 \<le> n \<and> n \<le> 90) \<or> (192 \<le> n \<and> n \<le> 214) \<or> (216 \<le> n \<and> n \<le> 222)
         then (case c of Char b0 b1 b2 b3 b4 b5 b6 b7 \<Rightarrow> Char b0 b1 b2 b3 b4 True b6 b7)
         else c)"

definition lower :: "string \<Rightarrow> string" where
  "lower s = map lower_char s"

text \<open>\<^verbatim>\<open>str.strip()\<close> removes the white space at both ends.\<close>

definition strip :: "string \<Rightarrow> string" where
  "strip s = rev (dropWhile is_space (rev (dropWhile is_space s)))"

text \<open>
  \<^verbatim>\<open>s.replace(old, new)\<close> scans \<open>s\<close> from the left and replaces every occurrence of
  \<open>old\<close> that does not overlap an occurrence already replaced; an empty \<open>old\<close> matches
  before every character and at the end.
\<close>

function replace_scan :: "string \<Rightarrow> string \<Rightarrow> string \<Rightarrow> string" where
  "replace_scan old new [] = []"
| "replace_scan old new (c # cs) =
     (if old \<noteq> [] \<and> prefix old (c # cs)
      then new @ replace_scan old new (drop (length old) (c # cs))
      else c # replace_scan old new cs)"
  by pat_completeness auto
termination
  by (relation "measure (\<lambda>(old, new, s). length s)") auto

definition replace :: "string \<Rightarrow> string \<Rightarrow> string \<Rightarrow> string" where
  "replace s old new =
     (if old = [] then new @ concat (map (\<lambda>c. c # new) s) else replace_scan old new s)"

text \<open>\<^verbatim>\<open>s.rfind(c)\<close> for a single character: the last index of \<open>c\<close>, or \<open>-1\<close>.\<close>

definition rfind :: "string \<Rightarrow> char \<Rightarrow> int" where
  "rfind s c =
     (if c \<in> set s
      then int (length s) - 1 - int (length (takeWhile (\<lambda>x. x \<noteq> c) (rev s)))
      else - 1)"

text \<open>\<^verbatim>\<open>str(i)\<close> for an integer and \<^verbatim>\<open>sep.join(xs)\<close>.\<close>

definition digit_char :: "nat \<Rightarrow> char" where
  "digit_char d = ''0123456789'' ! d"

fun str_nat :: "nat \<Rightarrow> string" where
  "str_nat n = (if n < 10 then [digit_char n] else str_nat (n div 10) @ [digit_char (n mod 10)])"

declare str_nat.simps [simp del]

definition str_int :: "int \<Rightarrow> string" where
  "str_int i = (if i < 0 then CHR ''-'' # str_nat (nat (- i)) else str_nat (nat i))"

fun join :: "string \<Rightarrow> string list \<Rightarrow> string" where
  "join sep [] = []"
| "join sep [x] = x"
| "join sep (x # y # ys) = x @ sep @ join sep (y # ys)"

subsection \<open>\<^verbatim>\<open>os.path\<close>\<close>

text \<open>
  \<^verbatim>\<open>os.path.splitext(p)\<close>: the extension starts at the last dot of the last component,
  unless only dots precede it there.
\<close>

definition splitext :: "string \<Rightarrow> string \<times> string" where
  "splitext p =
     (let sepIndex = rfind p CHR ''/'';
          dotIndex = rfind p CHR ''.''
      in if sepIndex < dotIndex
            \<and> list_ex (\<lambda>c. c \<noteq> CHR ''.'')
                 (take (nat (dotIndex - (sepIndex + 1))) (drop (nat (sepIndex + 1)) p))
         then (take (nat dotIndex) p, drop (nat dotIndex) p)
         else (p, []))"

text \<open>\<^verbatim>\<open>os.path.join(a, b)\<close> for a relative \<open>b\<close>.\<close>

definition os_path_join :: "string \<Rightarrow> string \<Rightarrow> string" where
  "os_path_join a b = (if a = [] \<or> last a = CHR ''/'' then a @ b else a @ ''/'' @ b)"

subsection \<open>\<^verbatim>\<open>pathlib\<close>\<close>

fun split_on :: "char \<Rightarrow> string \<Rightarrow> string list" where
  "split_on sep [] = [[]]"
| "split_on sep (c # cs) =
     (if c = sep then [] # split_on sep cs
      else (case split_on sep cs of
              [] \<Rightarrow> [[c]]
            | w # ws \<Rightarrow> (c # w) # ws))"

text \<open>
  A path is its root (\<open>''''\<close>, \<open>''/''\<close> or \<open>''//''\<close>) and the components after it.
  \<open>Path s\<close> parses a string as the constructor of \<^verbatim>\<open>pathlib\<close> does: exactly two leading
  slashes are kept as root, any other number of them is one slash; empty components and
  single dots are dropped.
\<close>

record path =
  root :: string
  tail :: "string list"

definition splitroot :: "string \<Rightarrow> string \<times> string" where
  "splitroot part =
     (let stripped = dropWhile (\<lambda>c. c = CHR ''/'') part
      in if part \<noteq> [] \<and> hd part = CHR ''/''
         then (if length part - length stripped = 2 then (''//'', stripped)
               else (''/'', stripped))
         else ([], part))"

definition Path :: "string \<Rightarrow> path" where
  "Path s =
     (let (r, rel) = splitroot s
      in \<lparr>root = r, tail = filter (\<lambda>x. x \<noteq> [] \<and> x \<noteq> ''.'') (split_on CHR ''/'' rel)\<rparr>)"

definition str_path :: "path \<Rightarrow> string" where
  "str_path p =
     (if root p = [] \<and> tail p = [] then ''.'' else root p @ join ''/'' (tail p))"

text \<open>
  The attributes \<^verbatim>\<open>name\<close>, \<^verbatim>\<open>suffix\<close> and \<^verbatim>\<open>parent\<close>, and the operator \<^verbatim>\<open>/\<close>. The
  suffix starts at the last dot of the name, unless that dot is the first or the last
  character of the name. Joining with an absolute path gives that path.
\<close>

definition path_name :: "path \<Rightarrow> string" where
  "path_name p = (if tail p = [] then [] else last (tail p))"

definition path_suffix :: "path \<Rightarrow> string" where
  "path_suffix p =
     (let n = path_name p; i = rfind n CHR ''.''
      in if 0 < i \<and> i < int (length n) - 1 then drop (nat i) n else [])"

definition path_parent :: "path \<Rightarrow> path" where
  "path_parent p = (if tail p = [] then p else p\<lparr>tail := butlast (tail p)\<rparr>)"

definition joinpath :: "path \<Rightarrow> string \<Rightarrow> path" where
  "joinpath p s =
     (let q = Path s
      in if root q \<noteq> [] then q else p\<lparr>tail := tail p @ tail q\<rparr>)"

subsection \<open>\<^verbatim>\<open>natsort\<close>\<close>

text \<open>
  \<^verbatim>\<open>natsorted\<close> with its default algorithm computes a key for every string and sorts by
  it. The string is first brought into the Unicode normal form NFD, which splits an
  accented letter into the letter and a combining mark; the marks lie beyond 255, so the
  normal form is a list of code points. \<open>nfd_table\<close> holds the canonical decompositions
  of the code points below 256.
\<close>

definition nfd_table :: "(nat \<times> nat list) list" where
  "nfd_table =
    [(192, [65, 768]), (193, [65, 769]), (194, [65, 770]), (195, [65, 771]),
      (196, [65, 776]), (197, [65, 778]), (199, [67, 807]), (200, [69, 768]),
      (201, [69, 769]), (202, [69, 770]), (203, [69, 776]), (204, [73, 768]),
      (205, [73, 769]), (206, [73, 770]), (207, [73, 776]), (209, [78, 771]),
      (210, [79, 768]), (211, [79, 769]), (212, [79, 770]), (213, [79, 771]),
      (214, [79, 776]), (217, [85, 768]), (218, [85, 769]), (219, [85, 770]),
      (220, [85, 776]), (221, [89, 769]), (224, [97, 768]), (225, [97, 769]),
      (226, [97, 770]), (227, [97, 771]), (228, [97, 776]), (229, [97, 778]),
      (231, [99, 807]), (232, [101, 768]), (233, [101, 769]), (234, [101, 770]),
      (235, [101, 776]), (236, [105, 768]), (237, [105, 769]), (238, [105, 770]),
      (239, [105, 776]), (241, [110, 771]), (242, [111, 768]), (243, [111, 769]),
      (244, [111, 770]), (245, [111, 771]), (246, [111, 776]), (249, [117, 768]),
      (250, [117, 769]), (251, [117, 770]), (252, [117, 776]), (253, [121, 769]),
      (255, [121, 776])]"

definition nfd_char :: "char \<Rightarrow> nat list" where
  "nfd_char c = (case map_of nfd_table (of_char c) of Some d \<Rightarrow> d | None \<Rightarrow> [of_char c])"

definition nfd :: "string \<Rightarrow> nat list" where
  "nfd s = concat (map nfd_char s)"

text \<open>
  The key cuts the normal form at the pattern \<^verbatim>\<open>(\d+|[digits])\<close>: a run of decimal
  digits is one number, and each of the superscript digits (code points 178, 179 and 185,
  the digits 2, 3 and 1) is a number of its own. The text between the numbers is kept as it
  is. An empty text is put in front of a key that would begin with a number and between
  two numbers that follow each other, so that text and numbers alternate and two keys are
  compared text with text, by code points, and number with number. The order between a
  number and a text is never consulted; the instance below places numbers first to be
  total.
\<close>

datatype chunk = Txt "nat list" | Num nat

instantiation chunk :: linorder
begin

fun less_eq_chunk :: "chunk \<Rightarrow> chunk \<Rightarrow> bool" where
  "less_eq_chunk (Txt a) (Txt b) = (a \<le> b)"
| "less_eq_chunk (Num a) (Num b) = (a \<le> b)"
| "less_eq_chunk (Num a) (Txt b) = True"
| "less_eq_chunk (Txt a) (Num b) = False"

definition less_chunk :: "chunk \<Rightarrow> chunk \<Rightarrow> bool" where
  "less_chunk x y = (x \<le> y \<and> \<not> y \<le> x)"

instance
proof
  fix x y z :: chunk
  show "(x < y) = (x \<le> y \<and> \<not> y \<le> x)" by (rule less_chunk_def)
  show "x \<le> x" by (cases x) simp_all
  show "x \<le> y \<Longrightarrow> y \<le> z \<Longrightarrow> x \<le> z" by (cases x; cases y; cases z) auto
  show "x \<le> y \<Longrightarrow> y \<le> x \<Longrightarrow> x = y" by (cases x; cases y) auto
  show "x \<le> y \<or> y \<le> x" by (cases x; cases y) auto
qed

end

definition is_decimal :: "nat \<Rightarrow> bool" where
  "is_decimal n = (48 \<le> n \<and> n \<le> 57)"

definition superscript_digit :: "nat \<Rightarrow> nat option" where
  "superscript_digit n =
     (if n = 178 then Some 2 else if n = 179 then Some 3 else if n = 185 then Some 1 else None)"

definition is_plain :: "nat \<Rightarrow> bool" where
  "is_plain n = (\<not> is_decimal n \<and> superscript_digit n = None)"

definition int_of_digits :: "nat list \<Rightarrow> nat" where
  "int_of_digits ds = foldl (\<lambda>n c. 10 * n + (c - 48)) 0 ds"

function natsort_split :: "nat list \<Rightarrow> chunk list" where
  "natsort_split [] = []"
| "natsort_split (c # cs) =
     (if is_decimal c
      then Num (int_of_digits (c # takeWhile is_decimal cs))
             # natsort_split (dropWhile is_decimal cs)
      else (case superscript_digit c of
              Some d \<Rightarrow> Num d # natsort_split cs
            | None \<Rightarrow> Txt (c # takeWhile is_plain cs) # natsort_split (dropWhile is_plain cs)))"
  by pat_completeness auto
termination
  by (relation "measure length") (auto simp: le_imp_less_Suc length_dropWhile_le)

fun sep_inserter :: "chunk list \<Rightarrow> chunk list" where
  "sep_inserter (Num a # Num b # rest) = Num a # Txt [] # sep_inserter (Num b # rest)"
| "sep_inserter (x # rest) = x # sep_inserter rest"
| "sep_inserter [] = []"

definition natsort_key :: "string \<Rightarrow> chunk list" where
  "natsort_key s =
     (let parts = natsort_split (nfd s)
      in sep_inserter (case parts of
                         Num n # rest \<Rightarrow> Txt [] # parts
                       | _ \<Rightarrow> parts))"

text \<open>\<^verbatim>\<open>natsorted\<close> sorts with Python's \<^verbatim>\<open>sorted\<close>, which is stable, as \<^const>\<open>sort_key\<close> is.\<close>

definition natsorted :: "string list \<Rightarrow> string list" where
  "natsorted seq = sort_key natsort_key seq"

subsection \<open>Exceptions\<close>

text \<open>
  The exceptions the modelled code raises, with their message where it is a fixed text.
  \<open>ExtensionNotAllowed ext allowed\<close> is the \<^verbatim>\<open>ValueError\<close> whose message is formatted
  from the extension and the allow-list; \<open>OSError errno src dst\<close> is the error of
  \<^verbatim>\<open>os.rename\<close>, which carries both file names; \<open>AttributeError\<close> arises from a
  table that was never loaded.
\<close>

datatype error =
    FileNotFoundError string
  | NotADirectoryError string
  | ValueError string
  | ExtensionNotAllowed string "string list"
  | KeyError string
  | OSError nat string string
  | AttributeError

subsection \<open>\<^verbatim>\<open>file_manager.py\<close>\<close>

text \<open>
  What the directory scan observes: a path is absent, something that is not a directory,
  or a directory with its entries. An entry has its name, whether \<^verbatim>\<open>is_file()\<close> holds
  for it, and the absolute path that \<^verbatim>\<open>resolve()\<close> returns for it.
\<close>

record dir_entry =
  entry_name :: string
  entry_is_file :: bool
  entry_resolved :: string

datatype node = Absent | Other | Directory "dir_entry list"

definition get_file_paths_and_extension ::
  "(string \<Rightarrow> node) \<Rightarrow> string \<Rightarrow> string list \<Rightarrow> error + (string list \<times> string)" where
  "get_file_paths_and_extension fs directory_path allowed_extensions =
     (let directory = Path directory_path
      in case fs (str_path directory) of
           Absent \<Rightarrow> Inl (FileNotFoundError (''Directory not found: '' @ str_path directory))
         | Other \<Rightarrow> Inl (NotADirectoryError (''Not a directory: '' @ str_path directory))
         | Directory entries \<Rightarrow>
             (let files = filter entry_is_file entries
              in if files = [] then Inl (ValueError ''No files found in the directory.'')
                 else
                   (let extensions =
                          remdups (map (\<lambda>file. lower (path_suffix (joinpath directory (entry_name file))))
                                     files)
                    in if length extensions \<noteq> 1
                       then Inl (ValueError ''Error: Mixed file extensions in the directory.'')
                       else
                         (let ext = hd extensions;
                              allowed_extensions_lower = map lower allowed_extensions
                          in if ext \<notin> set allowed_extensions_lower
                             then Inl (ExtensionNotAllowed ext allowed_extensions)
                             else
                               (let file_paths = map entry_resolved files;
                                    file_paths = natsorted file_paths
                                in Inr (file_paths, ext))))))"

text \<open>
  A file system for running the scan: the directory \<open>/d\<close> holds two documents and a
  subdirectory.
\<close>

definition demo_fs :: "string \<Rightarrow> node" where
  "demo_fs p =
     (if p = ''/d''
      then Directory
             [\<lparr>entry_name = ''file10.PDF'', entry_is_file = True, entry_resolved = ''/d/file10.PDF''\<rparr>,
              \<lparr>entry_name = ''sub'', entry_is_file = False, entry_resolved = ''/d/sub''\<rparr>,
              \<lparr>entry_name = ''file2.pdf'', entry_is_file = True, entry_resolved = ''/d/file2.pdf''\<rparr>]
      else Absent)"

text \<open>
  \<^verbatim>\<open>Path.rename(target)\<close> hands both paths to the operating system. The parameter
  \<open>os_rename\<close> is the system call on a file system of type \<open>'fs\<close>: it returns an error
  number or the changed file system.
\<close>

definition path_rename ::
  "('fs \<Rightarrow> string \<Rightarrow> string \<Rightarrow> nat + 'fs) \<Rightarrow> 'fs \<Rightarrow> path \<Rightarrow> path \<Rightarrow> error + 'fs" where
  "path_rename os_rename fs p target =
     (case os_rename fs (str_path p) (str_path target) of
        Inl errno \<Rightarrow> Inl (OSError errno (str_path p) (str_path target))
      | Inr fs' \<Rightarrow> Inr fs')"

text \<open>The first statement of \<^verbatim>\<open>rename_files\<close>: a leading empty name is dropped.\<close>

definition discard_first_empty :: "string list \<Rightarrow> string list" where
  "discard_first_empty new_names =
     (if new_names \<noteq> [] \<and> hd new_names = [] then tl new_names else new_names)"

text \<open>
  The loop of \<^verbatim>\<open>rename_files\<close> over \<^verbatim>\<open>zip(original_files, new_names)\<close>. The result is
  the exception that ended the loop, if any, and the file system as the loop left it.
\<close>

fun rename_loop ::
  "('fs \<Rightarrow> string \<Rightarrow> string \<Rightarrow> nat + 'fs) \<Rightarrow> 'fs \<Rightarrow> (string \<times> string) list
     \<Rightarrow> error option \<times> 'fs" where
  "rename_loop os_rename fs [] = (None, fs)"
| "rename_loop os_rename fs ((original, new) # rest) =
     (let original_path = Path original;
          new_file_name = new @ path_suffix original_path;
          new_path = joinpath (path_parent original_path) new_file_name
      in case path_rename os_rename fs original_path new_path of
           Inl e \<Rightarrow> (Some e, fs)
         | Inr fs' \<Rightarrow> rename_loop os_rename fs' rest)"

definition rename_files ::
  "('fs \<Rightarrow> string \<Rightarrow> string \<Rightarrow> nat + 'fs) \<Rightarrow> 'fs \<Rightarrow> string list \<Rightarrow> string list
     \<Rightarrow> error option \<times> 'fs" where
  "rename_files os_rename fs original_files new_names =
     (let new_names = discard_first_empty new_names
      in if length original_files \<noteq> length new_names
         then (Some (ValueError ''The number of original files and new names does not match.''), fs)
         else rename_loop os_rename fs (zip original_files new_names))"

text \<open>
  The two strings that one turn of the loop hands to the operating system: the original
  path as \<^verbatim>\<open>pathlib\<close> prints it, and the parent directory of the original joined with
  the new name followed by the original's own suffix.
\<close>

definition source_of :: "string \<Rightarrow> string" where
  "source_of original = str_path (Path original)"

definition destination_of :: "string \<Rightarrow> string \<Rightarrow> string" where
  "destination_of original new =
     str_path (joinpath (path_parent (Path original)) (new @ path_suffix (Path original)))"

text \<open>
  Two instances of the system call, for running the model. \<open>listing_rename\<close> works on
  the list of existing paths and fails when the source is missing (\<open>ENOENT\<close>) or the
  destination exists (\<open>EEXIST\<close>, as on Windows). \<open>logging_rename\<close> never fails and records
  each call.
\<close>

definition ENOENT :: nat where
  "ENOENT = 2"

definition EEXIST :: nat where
  "EEXIST = 17"

definition listing_rename :: "string list \<Rightarrow> string \<Rightarrow> string \<Rightarrow> nat + string list" where
  "listing_rename fs src dst =
     (if src \<notin> set fs then Inl ENOENT
      else if dst \<in> set fs then Inl EEXIST
      else Inr (map (\<lambda>p. if p = src then dst else p) fs))"

definition logging_rename ::
  "(string \<times> string) list \<Rightarrow> string \<Rightarrow> string \<Rightarrow> nat + (string \<times> string) list" where
  "logging_rename calls src dst = Inr (calls @ [(src, dst)])"

subsection \<open>\<^verbatim>\<open>excel_parser.py\<close>\<close>

text \<open>
  A cell of the table is a string, an integer or a float. \<open>Dyadic m k\<close> is the float of
  value \<open>m / 2 ^ k\<close> (every finite float has this form); \<^verbatim>\<open>is_integer()\<close> and \<^verbatim>\<open>int()\<close>
  are computed from it; the source applies \<^verbatim>\<open>int()\<close> to whole floats only. The text
  Python prints for a float that is not whole is the parameter \<open>float_repr\<close>.
\<close>

datatype pyfloat = Dyadic int nat | PosInf | NegInf | NaN

fun is_integer :: "pyfloat \<Rightarrow> bool" where
  "is_integer (Dyadic m k) = (2 ^ k dvd m)"
| "is_integer _ = False"

fun int_of_float :: "pyfloat \<Rightarrow> int" where
  "int_of_float (Dyadic m k) = m div 2 ^ k"
| "int_of_float _ = 0"

text \<open>An instance of the float printer, for tables without fractional floats.\<close>

definition no_float_repr :: "pyfloat \<Rightarrow> string" where
  "no_float_repr f = []"

datatype cell = CStr string | CInt int | CFloat pyfloat

text \<open>
  A data frame has its column names and its rows, each row with one cell per column;
  \<open>row_get\<close> is \<^verbatim>\<open>row[col]\<close>, undefined (a \<^verbatim>\<open>KeyError\<close>) for a name that is no column.
\<close>

record dataframe =
  columns :: "string list"
  rows :: "cell list list"

definition row_get :: "string list \<Rightarrow> cell list \<Rightarrow> string \<Rightarrow> cell option" where
  "row_get cols row col = map_of (zip cols row) col"

fun py_str :: "(pyfloat \<Rightarrow> string) \<Rightarrow> cell \<Rightarrow> string" where
  "py_str float_repr (CStr s) = s"
| "py_str float_repr (CInt i) = str_int i"
| "py_str float_repr (CFloat f) = float_repr f"

text \<open>
  The three statements on a cell inside the loop: a whole float becomes an integer, the
  value is printed, the text is stripped.
\<close>

definition value_str :: "(pyfloat \<Rightarrow> string) \<Rightarrow> cell \<Rightarrow> string" where
  "value_str float_repr v =
     (let v = (case v of
                 CFloat f \<Rightarrow> if is_integer f then CInt (int_of_float f) else v
               | _ \<Rightarrow> v)
      in strip (py_str float_repr v))"

text \<open>The inner loop over the selected columns, for one row.\<close>

fun format_row ::
  "(pyfloat \<Rightarrow> string) \<Rightarrow> (string \<Rightarrow> cell option) \<Rightarrow> string list \<Rightarrow> string
     \<Rightarrow> error + string" where
  "format_row float_repr row [] temp_name = Inr temp_name"
| "format_row float_repr row (col # cols) temp_name =
     (case row col of
        None \<Rightarrow> Inl (KeyError col)
      | Some v \<Rightarrow>
          format_row float_repr row cols (replace temp_name col (value_str float_repr v)))"

text \<open>The outer loop over the rows, appending to \<^verbatim>\<open>formatted_names\<close>.\<close>

fun format_rows ::
  "(pyfloat \<Rightarrow> string) \<Rightarrow> string list \<Rightarrow> string list \<Rightarrow> string \<Rightarrow> cell list list
     \<Rightarrow> string list \<Rightarrow> error + string list" where
  "format_rows float_repr df_columns cols base_string [] formatted_names = Inr formatted_names"
| "format_rows float_repr df_columns cols base_string (row # remaining) formatted_names =
     (case format_row float_repr (row_get df_columns row) cols base_string of
        Inl e \<Rightarrow> Inl e
      | Inr temp_name \<Rightarrow>
          format_rows float_repr df_columns cols base_string remaining
            (formatted_names @ [temp_name]))"

definition generate_formatted_names ::
  "(pyfloat \<Rightarrow> string) \<Rightarrow> dataframe \<Rightarrow> string list \<Rightarrow> string \<Rightarrow> error + string list" where
  "generate_formatted_names float_repr df cols format_string =
     (let base_string = fst (splitext format_string)
      in format_rows float_repr (columns df) cols base_string (rows df) [])"

text \<open>
  The claim's words for one generated name: the base string in which, field after field
  in the order of selection, every occurrence of the field name is replaced by the text of
  the row's value.
\<close>

definition substituted_name ::
  "(pyfloat \<Rightarrow> string) \<Rightarrow> (string \<Rightarrow> cell option) \<Rightarrow> string list \<Rightarrow> string \<Rightarrow> string" where
  "substituted_name float_repr row cols base =
     foldl (\<lambda>t col. replace t col (value_str float_repr (the (row col)))) base cols"

subsection \<open>\<^verbatim>\<open>gui_drag_and_drop.py\<close>: marker reordering\<close>

text \<open>\<^verbatim>\<open>CELL_WIDTH = 120\<close>, copied into \<^verbatim>\<open>self.cell_width\<close> by the constructor.\<close>

definition CELL_WIDTH :: int where
  "CELL_WIDTH = 120"

text \<open>
  \<^verbatim>\<open>round(a / b)\<close> for integers \<open>a\<close> and \<open>b > 0\<close>: Python rounds the quotient to the
  nearest integer and a tie to the even neighbour. The quotient is taken exactly here;
  the floating-point division of the source agrees with it for every pixel coordinate
  (a tie is a multiple of one half, which a float holds exactly).
\<close>

definition py_round_div :: "int \<Rightarrow> int \<Rightarrow> int" where
  "py_round_div a b =
     (let q = a div b; r = a mod b
      in if 2 * r < b then q
         else if b < 2 * r then q + 1
         else if even q then q else q + 1)"

text \<open>
  \<^verbatim>\<open>list.insert(i, x)\<close>: an index beyond the end appends, a negative index counts from
  the end and stops at the front.
\<close>

definition list_insert :: "'a list \<Rightarrow> int \<Rightarrow> 'a \<Rightarrow> 'a list" where
  "list_insert xs i x =
     (let n = int (length xs);
          j = (if i < 0 then max 0 (i + n) else min i n)
      in take (nat j) xs @ [x] @ drop (nat j) xs)"

text \<open>
  The first two statements of \<^verbatim>\<open>reorder_label\<close>:
  \<^verbatim>\<open>target_index = round(drop_x / (self.cell_width * 2))\<close> and
  \<^verbatim>\<open>target_index = max(0, min(target_index, len(self.labels) - 1))\<close>.
\<close>

definition target_index :: "'a list \<Rightarrow> int \<Rightarrow> int" where
  "target_index labels drop_x =
     max 0 (min (py_round_div drop_x (CELL_WIDTH * 2)) (int (length labels) - 1))"

text \<open>
  The closing loop of \<^verbatim>\<open>reorder_label\<close> puts the label at position \<open>i\<close> into grid
  column \<open>i * 2\<close>.
\<close>

definition grid_columns :: "'a list \<Rightarrow> ('a \<times> nat) list" where
  "grid_columns labels = map (\<lambda>i. (labels ! i, i * 2)) [0..<length labels]"

text \<open>
  \<^verbatim>\<open>reorder_label(label, drop_x)\<close> on \<^verbatim>\<open>self.labels\<close>: the result is the new list of
  labels together with the grid column given to each of them.
\<close>

definition reorder_label :: "'a list \<Rightarrow> 'a \<Rightarrow> int \<Rightarrow> 'a list \<times> ('a \<times> nat) list" where
  "reorder_label labels label drop_x =
     (let t = target_index labels drop_x;
          labels' = (if label \<in> set labels then remove1 label labels else labels);
          labels'' = list_insert labels' t label
      in (labels'', grid_columns labels''))"

subsection \<open>\<^verbatim>\<open>gui_drag_and_drop.py\<close>: entries and the template\<close>

definition ALLOWED_CHARS :: string where
  "ALLOWED_CHARS = ''-_,; ''"

text \<open>\<^verbatim>\<open>validate_input\<close>, the key validation of every separator entry.\<close>

fun validate_chars :: "string \<Rightarrow> bool" where
  "validate_chars [] = True"
| "validate_chars (ch # rest) = (if ch \<notin> set ALLOWED_CHARS then False else validate_chars rest)"

definition validate_input :: "string \<Rightarrow> bool" where
  "validate_input new_value = (if new_value = [] then True else validate_chars new_value)"

text \<open>The constructor puts a dot in front of an extension that has none.\<close>

definition init_extension :: "string \<Rightarrow> string" where
  "init_extension extension = (if prefix ''.'' extension then extension else ''.'' @ extension)"

text \<open>
  \<^verbatim>\<open>build_filename\<close>: \<open>labels\<close> are the texts of the markers in their current order,
  \<open>entries\<close> the texts of the separator entries.
\<close>

fun build_loop :: "nat \<Rightarrow> string list \<Rightarrow> string list \<Rightarrow> string \<Rightarrow> string" where
  "build_loop i [] entries filename = filename"
| "build_loop i (label_text # rest) entries filename =
     (let entry_text = (if i < length entries then entries ! i else [])
      in build_loop (Suc i) rest entries (filename @ label_text @ entry_text))"

definition build_filename :: "string list \<Rightarrow> string list \<Rightarrow> string \<Rightarrow> string" where
  "build_filename labels entries extension = build_loop 0 labels entries [] @ extension"

subsection \<open>\<^verbatim>\<open>gui_batch_renamer.py\<close>: the wizard\<close>

text \<open>The defaults of \<^verbatim>\<open>ApplicationDefaults\<close>.\<close>

definition EXCEL :: string where
  "EXCEL = ''No file selected''"

definition DIRECTORY :: string where
  "DIRECTORY = ''No folder selected''"

datatype button_state = NORMAL | DISABLED

text \<open>
  The attributes of \<^verbatim>\<open>Application\<close> that the modelled methods read or write. The two
  pager buttons are widgets; their \<^verbatim>\<open>state\<close> option is part of the state, and a press
  on a disabled button runs no command.
\<close>

record application =
  directory_path :: string
  excel_file_path :: string
  original_files_list :: "string list"
  dataframe :: "dataframe option"
  new_names_list :: "string list"
  selected_options :: "string list"
  extension_from_files :: string
  final_filename_format :: string
  current_page_index :: int
  prev_button :: button_state
  next_button :: button_state

text \<open>\<^verbatim>\<open>initialize_variables\<close> and \<^verbatim>\<open>create_pager\<close>.\<close>

definition initial_application :: application where
  "initial_application =
     \<lparr>directory_path = DIRECTORY, excel_file_path = EXCEL, original_files_list = [],
      dataframe = None, new_names_list = [], selected_options = [],
      extension_from_files = [], final_filename_format = [], current_page_index = 0,
      prev_button = DISABLED, next_button = DISABLED\<rparr>"

text \<open>\<^verbatim>\<open>self.pages\<close> holds the four stage methods.\<close>

definition len_pages :: int where
  "len_pages = 4"

definition is_stage_ready :: "application \<Rightarrow> bool" where
  "is_stage_ready app =
     (if current_page_index app = 0
      then directory_path app \<noteq> DIRECTORY \<and> 1 < length (original_files_list app)
      else if current_page_index app = 1
      then excel_file_path app \<noteq> EXCEL \<and> selected_options app \<noteq> []
      else if current_page_index app = 2
      then final_filename_format app \<noteq> []
      else False)"

definition get_prev_button_state :: "application \<Rightarrow> button_state" where
  "get_prev_button_state app = (if 0 < current_page_index app then NORMAL else DISABLED)"

definition get_next_button_state :: "application \<Rightarrow> button_state" where
  "get_next_button_state app = (if is_stage_ready app then NORMAL else DISABLED)"

definition update_buttons :: "application \<Rightarrow> application" where
  "update_buttons app =
     app\<lparr>prev_button := get_prev_button_state app, next_button := get_next_button_state app\<rparr>"

text \<open>
  \<^verbatim>\<open>change_page\<close>; the stage method it calls configures texts and commands only.
\<close>

definition change_page :: "int \<Rightarrow> application \<Rightarrow> application" where
  "change_page direction app =
     (let new_index = current_page_index app + direction
      in if 0 \<le> new_index \<and> new_index < len_pages
         then update_buttons (app\<lparr>current_page_index := new_index\<rparr>)
         else app)"

text \<open>
  The pager buttons are bound to \<^verbatim>\<open>change_page(-1)\<close> and \<^verbatim>\<open>change_page(1)\<close>.
\<close>

definition press_prev :: "application \<Rightarrow> application" where
  "press_prev app = (if prev_button app = NORMAL then change_page (- 1) app else app)"

definition press_next :: "application \<Rightarrow> application" where
  "press_next app = (if next_button app = NORMAL then change_page 1 app else app)"

subsection \<open>\<^verbatim>\<open>gui_batch_renamer.py\<close>: choosing the folder\<close>

text \<open>
  The answer to the two dialogs of \<^verbatim>\<open>load_original_names\<close>: the split is declined, or
  accepted with the answer to the page-count dialog, which can be cancelled.
\<close>

datatype split_answer = Declined | Accepted "int option"

text \<open>The last \<^verbatim>\<open>if\<close> of \<^verbatim>\<open>load_original_names\<close>.\<close>

definition load_finish :: "application \<Rightarrow> application" where
  "load_finish app =
     (if original_files_list app \<noteq> [] \<and> extension_from_files app \<noteq> []
      then update_buttons
             (app\<lparr>extension_from_files := snd (splitext (original_files_list app ! 0))\<rparr>)
      else app)"

text \<open>
  \<^verbatim>\<open>load_original_names\<close>. The parameter \<open>split_pdf\<close> is the splitter, which reports
  success and changes the file system; \<open>answers\<close> are the user's answers to the split
  dialogs, one for each time the method asks. The result is \<open>None\<close> when the method asks
  and no answer is left. An exception of the scan leaves the state as it was.
\<close>

fun load_original_names ::
  "((string \<Rightarrow> node) \<Rightarrow> string \<Rightarrow> string \<Rightarrow> int \<Rightarrow> bool \<times> (string \<Rightarrow> node))
     \<Rightarrow> (string \<Rightarrow> node) \<Rightarrow> split_answer list \<Rightarrow> application
     \<Rightarrow> (application \<times> (string \<Rightarrow> node)) option" where
  "load_original_names split_pdf fs answers app =
     (case get_file_paths_and_extension fs (directory_path app) [''.pdf''] of
        Inl e \<Rightarrow> Some (app, fs)
      | Inr (files, ext) \<Rightarrow>
          (let app = app\<lparr>original_files_list := files, extension_from_files := ext\<rparr>
           in if length files = 1 \<and> lower ext = ''.pdf''
              then (case answers of
                      [] \<Rightarrow> None
                    | Declined # later \<Rightarrow>
                        Some (app\<lparr>directory_path := DIRECTORY, original_files_list := [],
                                   extension_from_files := []\<rparr>, fs)
                    | Accepted None # later \<Rightarrow> Some (load_finish app, fs)
                    | Accepted (Some pages_per_chunk) # later \<Rightarrow>
                        (let output_folder = os_path_join (directory_path app) ''split'';
                             app = app\<lparr>directory_path := output_folder\<rparr>
                         in case split_pdf fs (files ! 0) (directory_path app) pages_per_chunk of
                              (success, fs') \<Rightarrow>
                                if success then load_original_names split_pdf fs' later app
                                else Some (app, fs')))
              else Some (load_finish app, fs)))"

text \<open>
  \<^verbatim>\<open>select_directory\<close>: \<open>folder\<close> is the answer of the folder dialog (empty when it is
  cancelled), \<open>writable\<close> the answer of \<^verbatim>\<open>os.access\<close>.
\<close>

definition select_directory ::
  "((string \<Rightarrow> node) \<Rightarrow> string \<Rightarrow> string \<Rightarrow> int \<Rightarrow> bool \<times> (string \<Rightarrow> node))
     \<Rightarrow> (string \<Rightarrow> node) \<Rightarrow> string \<Rightarrow> bool \<Rightarrow> split_answer list \<Rightarrow> application
     \<Rightarrow> (application \<times> (string \<Rightarrow> node)) option" where
  "select_directory split_pdf fs folder writable answers app =
     (if folder = [] then Some (app, fs)
      else if \<not> writable then Some (app, fs)
      else load_original_names split_pdf fs answers
             (update_buttons (app\<lparr>directory_path := folder\<rparr>)))"

text \<open>
  A run of the folder stage, used below: a splitter that fails, a file system with the
  folder \<open>/big\<close> of three documents and the folder \<open>/one\<close> of a single document, and the
  two states the run passes through.
\<close>

definition failing_split ::
  "(string \<Rightarrow> node) \<Rightarrow> string \<Rightarrow> string \<Rightarrow> int \<Rightarrow> bool \<times> (string \<Rightarrow> node)" where
  "failing_split fs input_pdf_path output_folder_path pages_per_chunk = (False, fs)"

definition two_folders :: "string \<Rightarrow> node" where
  "two_folders p =
     (if p = ''/big''
      then Directory
             [\<lparr>entry_name = ''a.pdf'', entry_is_file = True, entry_resolved = ''/big/a.pdf''\<rparr>,
              \<lparr>entry_name = ''b.pdf'', entry_is_file = True, entry_resolved = ''/big/b.pdf''\<rparr>,
              \<lparr>entry_name = ''c.pdf'', entry_is_file = True, entry_resolved = ''/big/c.pdf''\<rparr>]
      else if p = ''/one''
      then Directory
             [\<lparr>entry_name = ''only.pdf'', entry_is_file = True, entry_resolved = ''/one/only.pdf''\<rparr>]
      else Absent)"

definition after_first_folder :: application where
  "after_first_folder =
     \<lparr>directory_path = ''/big'', excel_file_path = EXCEL,
      original_files_list = [''/big/a.pdf'', ''/big/b.pdf'', ''/big/c.pdf''],
      dataframe = None, new_names_list = [], selected_options = [],
      extension_from_files = ''.pdf'', final_filename_format = [], current_page_index = 0,
      prev_button = DISABLED, next_button = NORMAL\<rparr>"

definition after_declined_split :: application where
  "after_declined_split =
     \<lparr>directory_path = DIRECTORY, excel_file_path = EXCEL, original_files_list = [],
      dataframe = None, new_names_list = [], selected_options = [],
      extension_from_files = [], final_filename_format = [], current_page_index = 0,
      prev_button = DISABLED, next_button = NORMAL\<rparr>"

subsection \<open>\<^verbatim>\<open>gui_batch_renamer.py\<close>: \<^verbatim>\<open>start_renaming\<close>\<close>

text \<open>
  \<^verbatim>\<open>re.match(r"^[\w\-. ]+$", format_str)\<close>: the class holds the word characters
  (alphanumerics and the underscore), the hyphen, the dot and the space. The repetition
  takes the longest run of such characters, which must not be empty, and \<^verbatim>\<open>$\<close> accepts
  the end of the string or a line feed that ends the string.
\<close>

definition is_word :: "char \<Rightarrow> bool" where
  "is_word c = (is_alnum c \<or> c = CHR ''_'')"

definition format_class :: "char \<Rightarrow> bool" where
  "format_class c = (is_word c \<or> c = CHR ''-'' \<or> c = CHR ''.'' \<or> c = CHR '' '')"

definition format_matches :: "string \<Rightarrow> bool" where
  "format_matches format_str =
     (let run = takeWhile format_class format_str;
          rest = dropWhile format_class format_str
      in run \<noteq> [] \<and> (rest = [] \<or> rest = [CHR 0x0A]))"

text \<open>
  What \<^verbatim>\<open>start_renaming\<close> shows: an error box with its text, the error box of the
  \<^verbatim>\<open>except\<close> clause with the exception it reports, or the success box.
\<close>

datatype outcome = ShowError string | ErrorRenaming error | ShowInfo string

text \<open>
  The list comprehension for the missing columns touches the table only when a column is
  selected.
\<close>

definition missing_columns :: "application \<Rightarrow> error + string list" where
  "missing_columns app =
     (case dataframe app of
        None \<Rightarrow> if selected_options app = [] then Inr [] else Inl AttributeError
      | Some df \<Rightarrow> Inr (filter (\<lambda>col. col \<notin> set (columns df)) (selected_options app)))"

definition start_renaming ::
  "(pyfloat \<Rightarrow> string) \<Rightarrow> ('fs \<Rightarrow> string \<Rightarrow> string \<Rightarrow> nat + 'fs) \<Rightarrow> 'fs \<Rightarrow> application
     \<Rightarrow> outcome \<times> application \<times> 'fs" where
  "start_renaming float_repr os_rename fs app =
     (case missing_columns app of
        Inl e \<Rightarrow> (ErrorRenaming e, app, fs)
      | Inr missing \<Rightarrow>
          if missing \<noteq> []
          then (ShowError (''The following columns were not found in the Excel file: ''
                            @ join '', '' missing), app, fs)
          else
            (let format_str = final_filename_format app
             in if \<not> format_matches format_str
                then (ShowError ''The filename format contains invalid characters.'', app, fs)
                else
                  (case dataframe app of
                     None \<Rightarrow> (ErrorRenaming AttributeError, app, fs)
                   | Some df \<Rightarrow>
                       (case generate_formatted_names float_repr df (selected_options app)
                               format_str of
                          Inl e \<Rightarrow> (ErrorRenaming e, app, fs)
                        | Inr names \<Rightarrow>
                            (let app = app\<lparr>new_names_list := names\<rparr>
                             in if names = []
                                then (ShowError ''Could not generate new file names.'', app, fs)
                                else
                                  (case rename_files os_rename fs (original_files_list app)
                                          names of
                                     (Some e, fs') \<Rightarrow> (ErrorRenaming e, app, fs')
                                   | (None, fs') \<Rightarrow>
                                       (ShowInfo ''Files renamed successfully.'', app, fs')))))))"

text \<open>
  A state at the confirm stage, for running the model: two files, a table with the one
  column \<open>Name\<close>, and three selected fields of which two are no columns.
\<close>

definition demo_app :: application where
  "demo_app = initial_application
     \<lparr>original_files_list := [''/d/a.pdf'', ''/d/b.pdf''],
      dataframe := Some \<lparr>columns = [''Name''], rows = [[CStr ''Alpha''], [CStr ''Beta'']]\<rparr>,
      selected_options := [''Year'', ''Name'', ''Id''],
      final_filename_format := ''Year-Name.pdf'',
      current_page_index := 3\<rparr>"

section \<open>Properties\<close>

subsection \<open>Marker reordering\<close>

lemma py_round_div_nearest:
  assumes "0 < b"
  shows "2 * \<bar>a - py_round_div a b * b\<bar> \<le> b"
proof -
  define q where "q = a div b"
  define r where "r = a mod b"
  have a: "a = q * b + r" by (simp add: q_def r_def)
  have r0: "0 \<le> r" and rb: "r < b" using assms by (simp_all add: r_def)
  have e1: "a - (q + 1) * b = r - b" unfolding a by (simp add: algebra_simps)
  have e0: "a - q * b = r" unfolding a by simp
  have low: "2 * \<bar>a - q * b\<bar> \<le> b" if "2 * r \<le> b"
    unfolding e0 using that r0 by (simp add: abs_if)
  have high: "2 * \<bar>a - (q + 1) * b\<bar> \<le> b" if "b \<le> 2 * r"
    unfolding e1 using that rb by (simp add: abs_if)
  consider "2 * r < b" | "b < 2 * r" | "2 * r = b" by linarith
  then show ?thesis
  proof cases
    case 1
    then have "py_round_div a b = q"
      by (simp add: py_round_div_def Let_def q_def r_def)
    then show ?thesis using low 1 by simp
  next
    case 2
    then have "py_round_div a b = q + 1"
      by (simp add: py_round_div_def Let_def q_def r_def)
    then show ?thesis using high 2 by simp
  next
    case 3
    then have "py_round_div a b = q \<or> py_round_div a b = q + 1"
      by (simp add: py_round_div_def Let_def q_def r_def)
    then show ?thesis using low high 3 by auto
  qed
qed

lemma py_round_div_ge_div: "a div b \<le> py_round_div a b"
  by (simp add: py_round_div_def Let_def)

lemma py_round_div_mono_lower:
  assumes "0 < b" "k * b \<le> a"
  shows "k \<le> py_round_div a b"
proof -
  have "(k * b) div b \<le> a div b"
    using assms by (intro zdiv_mono1) simp_all
  then have "k \<le> a div b" using assms(1) by simp
  then show ?thesis using py_round_div_ge_div [of a b] by linarith
qed

lemma py_round_div_nonpos:
  assumes "0 < b" "a \<le> 0"
  shows "py_round_div a b \<le> 0"
proof (cases "a = 0")
  case True
  then show ?thesis using assms by (simp add: py_round_div_def)
next
  case False
  then have neg: "a < 0" using assms by simp
  have "a div b < 0" using neg assms(1) by (rule div_neg_pos_less0)
  then have q: "a div b + 1 \<le> 0" by linarith
  have "py_round_div a b \<le> a div b + 1"
    by (simp add: py_round_div_def Let_def)
  with q show ?thesis by linarith
qed

lemma target_index_range:
  assumes "labels \<noteq> []"
  shows "0 \<le> target_index labels drop_x \<and> target_index labels drop_x \<le> int (length labels) - 1"
proof -
  from assms have "0 < length labels" by simp
  then have "0 \<le> int (length labels) - 1" by linarith
  then show ?thesis unfolding target_index_def by linarith
qed

lemma target_index_beyond_last:
  assumes "(int (length labels) - 1) * (CELL_WIDTH * 2) \<le> drop_x"
  shows "target_index labels drop_x = max 0 (int (length labels) - 1)"
proof -
  have "int (length labels) - 1 \<le> py_round_div drop_x (CELL_WIDTH * 2)"
    using assms by (intro py_round_div_mono_lower) (simp_all add: CELL_WIDTH_def)
  then show ?thesis by (simp add: target_index_def)
qed

lemma target_index_before_first:
  assumes "drop_x \<le> 0"
  shows "target_index labels drop_x = 0"
proof -
  have "py_round_div drop_x (CELL_WIDTH * 2) \<le> 0"
    using assms by (intro py_round_div_nonpos) (simp_all add: CELL_WIDTH_def)
  then show ?thesis by (simp add: target_index_def)
qed

lemma mset_list_insert: "mset (list_insert xs i x) = add_mset x (mset xs)"
proof -
  have "mset (take n xs) + mset (drop n xs) = mset xs" for n
    by (metis append_take_drop_id mset_append)
  then show ?thesis by (simp add: list_insert_def Let_def)
qed

lemma py_round_div_tie_even:
  assumes "0 < b" "2 * \<bar>a - py_round_div a b * b\<bar> = b"
  shows "even (py_round_div a b)"
proof -
  define q where "q = a div b"
  define r where "r = a mod b"
  have a: "a = q * b + r" by (simp add: q_def r_def)
  have r0: "0 \<le> r" and rb: "r < b" using assms(1) by (simp_all add: r_def)
  have e1: "a - (q + 1) * b = r - b" unfolding a by (simp add: algebra_simps)
  have e0: "a - q * b = r" unfolding a by simp
  consider "2 * r < b" | "b < 2 * r" | "2 * r = b" by linarith
  then show ?thesis
  proof cases
    case 1
    then have p: "py_round_div a b = q"
      by (simp add: py_round_div_def Let_def q_def r_def)
    have "2 * \<bar>a - q * b\<bar> < b" unfolding e0 using 1 r0 by (simp add: abs_if)
    then show ?thesis using assms(2) unfolding p by simp
  next
    case 2
    then have p: "py_round_div a b = q + 1"
      by (simp add: py_round_div_def Let_def q_def r_def)
    have "2 * \<bar>a - (q + 1) * b\<bar> < b" unfolding e1 using 2 rb by (simp add: abs_if)
    then show ?thesis using assms(2) unfolding p by simp
  next
    case 3
    then show ?thesis
      by (simp add: py_round_div_def Let_def q_def [symmetric] r_def [symmetric])
  qed
qed

lemma target_index_clamped:
  assumes "labels \<noteq> []"
  shows "target_index labels drop_x
         = (if py_round_div drop_x (CELL_WIDTH * 2) < 0 then 0
            else if int (length labels) - 1 < py_round_div drop_x (CELL_WIDTH * 2)
            then int (length labels) - 1
            else py_round_div drop_x (CELL_WIDTH * 2))"
proof -
  from assms have "0 < length labels" by simp
  then have "0 \<le> int (length labels) - 1" by linarith
  then show ?thesis unfolding target_index_def by (simp add: max_def min_def)
qed

lemma reorder_label_position:
  assumes "label \<in> set labels"
  shows "fst (reorder_label labels label drop_x)
         = take (nat (target_index labels drop_x)) (remove1 label labels)
           @ label # drop (nat (target_index labels drop_x)) (remove1 label labels)"
    and "length (fst (reorder_label labels label drop_x)) = length labels"
    and "fst (reorder_label labels label drop_x) ! nat (target_index labels drop_x) = label"
    and "distinct labels \<Longrightarrow>
           remove1 label (fst (reorder_label labels label drop_x)) = remove1 label labels"
proof -
  let ?t = "target_index labels drop_x"
  let ?xs = "remove1 label labels"
  have ne: "labels \<noteq> []" using assms by auto
  have len: "length ?xs = length labels - 1" using assms by (simp add: length_remove1)
  have range: "0 \<le> ?t" "?t \<le> int (length labels) - 1"
    using target_index_range [OF ne, of drop_x] by simp_all
  then have le: "nat ?t \<le> length ?xs" using len ne by (cases labels) auto
  have m: "min ?t (int (length ?xs)) = ?t" using range len ne by (cases labels) auto
  show f: "fst (reorder_label labels label drop_x) = take (nat ?t) ?xs @ label # drop (nat ?t) ?xs"
    using assms range(1) by (simp add: reorder_label_def list_insert_def Let_def m)
  show "length (fst (reorder_label labels label drop_x)) = length labels"
    unfolding f using len ne by (cases labels) auto
  have lt: "length (take (nat ?t) ?xs) = nat ?t" using le by simp
  show "fst (reorder_label labels label drop_x) ! nat ?t = label"
    unfolding f using lt by (metis nth_append_length)
  show "remove1 label (fst (reorder_label labels label drop_x)) = ?xs" if "distinct labels"
  proof -
    have "label \<notin> set ?xs" using that by simp
    then have "label \<notin> set (take (nat ?t) ?xs)" by (meson in_set_takeD)
    then show ?thesis unfolding f by (simp add: remove1_append)
  qed
qed

text \<open>
  Claim C9. Reordering maps the drop position to the nearest slot index (ties go to the
  even slot), clamped to \<open>[0, n - 1]\<close> for \<open>n\<close> labels, and lays every label out again at
  column \<open>2 * position\<close>. A drop at or beyond the last slot gives the same result as a
  drop exactly on the last slot, and a drop at or before the first slot the same result
  as a drop exactly on slot zero. The dragged label, which is one of the labels, is
  moved and nothing else is added or lost. The target index is the rounded quotient of the
  drop position by the slot width, replaced by 0 when it is negative and by \<open>n - 1\<close> when
  it is larger; the dragged label stands at the target index of the new list, and the
  other labels keep their order.
\<close>

theorem C9_reorder_label_clamp:
  fixes labels :: "'a list" and label :: 'a and drop_x :: int
  shows "2 * \<bar>drop_x - py_round_div drop_x (CELL_WIDTH * 2) * (CELL_WIDTH * 2)\<bar>
           \<le> CELL_WIDTH * 2
       \<and> (labels \<noteq> [] \<longrightarrow>
            0 \<le> target_index labels drop_x
          \<and> target_index labels drop_x \<le> int (length labels) - 1)
       \<and> ((int (length labels) - 1) * (CELL_WIDTH * 2) \<le> drop_x \<longrightarrow>
            reorder_label labels label drop_x
          = reorder_label labels label ((int (length labels) - 1) * (CELL_WIDTH * 2)))
       \<and> (drop_x \<le> 0 \<longrightarrow>
            reorder_label labels label drop_x = reorder_label labels label 0)
       \<and> (label \<in> set labels \<longrightarrow>
            mset (fst (reorder_label labels label drop_x)) = mset labels)
       \<and> snd (reorder_label labels label drop_x)
          = map (\<lambda>i. (fst (reorder_label labels label drop_x) ! i, i * 2))
              [0..<length (fst (reorder_label labels label drop_x))]
       \<and> (2 * \<bar>drop_x - py_round_div drop_x (CELL_WIDTH * 2) * (CELL_WIDTH * 2)\<bar>
            = CELL_WIDTH * 2 \<longrightarrow> even (py_round_div drop_x (CELL_WIDTH * 2)))
       \<and> (labels \<noteq> [] \<longrightarrow>
            target_index labels drop_x
            = (if py_round_div drop_x (CELL_WIDTH * 2) < 0 then 0
               else if int (length labels) - 1 < py_round_div drop_x (CELL_WIDTH * 2)
               then int (length labels) - 1
               else py_round_div drop_x (CELL_WIDTH * 2)))
       \<and> (label \<in> set labels \<longrightarrow>
            fst (reorder_label labels label drop_x)
            = take (nat (target_index labels drop_x)) (remove1 label labels)
              @ label # drop (nat (target_index labels drop_x)) (remove1 label labels)
          \<and> length (fst (reorder_label labels label drop_x)) = length labels
          \<and> fst (reorder_label labels label drop_x) ! nat (target_index labels drop_x) = label)
       \<and> (label \<in> set labels \<and> distinct labels \<longrightarrow>
            remove1 label (fst (reorder_label labels label drop_x)) = remove1 label labels)"
proof -
  let ?last = "(int (length labels) - 1) * (CELL_WIDTH * 2)"
  have w: "0 < CELL_WIDTH * 2" by (simp add: CELL_WIDTH_def)
  have nearest: "2 * \<bar>drop_x - py_round_div drop_x (CELL_WIDTH * 2) * (CELL_WIDTH * 2)\<bar>
          \<le> CELL_WIDTH * 2"
    using w by (rule py_round_div_nearest)
  have beyond: "reorder_label labels label drop_x = reorder_label labels label ?last"
    if "?last \<le> drop_x"
  proof -
    have "target_index labels drop_x = target_index labels ?last"
      using that target_index_beyond_last [of labels drop_x]
        target_index_beyond_last [of labels ?last] by simp
    then show ?thesis by (simp add: reorder_label_def)
  qed
  have before: "reorder_label labels label drop_x = reorder_label labels label 0"
    if "drop_x \<le> 0"
  proof -
    have "target_index labels drop_x = target_index labels 0"
      using that target_index_before_first [of drop_x labels]
        target_index_before_first [of 0 labels] by simp
    then show ?thesis by (simp add: reorder_label_def)
  qed
  have perm: "mset (fst (reorder_label labels label drop_x)) = mset labels"
    if "label \<in> set labels"
    using that by (simp add: reorder_label_def Let_def mset_list_insert)
  have layout: "snd (reorder_label labels label drop_x) =
          map (\<lambda>i. (fst (reorder_label labels label drop_x) ! i, i * 2))
            [0..<length (fst (reorder_label labels label drop_x))]"
    by (simp add: reorder_label_def Let_def grid_columns_def)
  have tie: "even (py_round_div drop_x (CELL_WIDTH * 2))"
    if "2 * \<bar>drop_x - py_round_div drop_x (CELL_WIDTH * 2) * (CELL_WIDTH * 2)\<bar> = CELL_WIDTH * 2"
    using w that by (rule py_round_div_tie_even)
  note pos = reorder_label_position [of label labels drop_x]
  from nearest target_index_range [of labels drop_x] beyond before perm layout tie
    target_index_clamped [of labels drop_x] pos
  show ?thesis by (intro conjI impI) blast+
qed

text \<open>
  Three labels. A drop far to the right of the last slot (at 480) puts the dragged first
  label last, exactly as a drop on the last slot does. A drop at 250, nearest to the
  second slot, puts it in the middle; dropping the third label at 100 puts it first. The
  drops at 120 and 360 lie halfway between two slots and go to the even ones.
\<close>

theorem C9_reorder_label_clamp_witness:
  "[CHR ''a'', CHR ''b'', CHR ''c''] \<noteq> []
   \<and> (int (length [CHR ''a'', CHR ''b'', CHR ''c'']) - 1) * (CELL_WIDTH * 2) \<le> 5000
   \<and> CHR ''a'' \<in> set [CHR ''a'', CHR ''b'', CHR ''c'']
   \<and> reorder_label [CHR ''a'', CHR ''b'', CHR ''c''] (CHR ''a'') 5000
     = reorder_label [CHR ''a'', CHR ''b'', CHR ''c''] (CHR ''a'') 480
   \<and> reorder_label [CHR ''a'', CHR ''b'', CHR ''c''] (CHR ''a'') 480
     = ([CHR ''b'', CHR ''c'', CHR ''a''],
        [(CHR ''b'', 0), (CHR ''c'', 2), (CHR ''a'', 4)])
   \<and> mset (fst (reorder_label [CHR ''a'', CHR ''b'', CHR ''c''] (CHR ''a'') 5000))
     = mset [CHR ''a'', CHR ''b'', CHR ''c'']
   \<and> target_index [CHR ''a'', CHR ''b'', CHR ''c''] 250 = 1
   \<and> reorder_label [CHR ''a'', CHR ''b'', CHR ''c''] (CHR ''a'') 250
     = ([CHR ''b'', CHR ''a'', CHR ''c''],
        [(CHR ''b'', 0), (CHR ''a'', 2), (CHR ''c'', 4)])
   \<and> fst (reorder_label [CHR ''a'', CHR ''b'', CHR ''c''] (CHR ''a'') 250)
       ! nat (target_index [CHR ''a'', CHR ''b'', CHR ''c''] 250) = CHR ''a''
   \<and> reorder_label [CHR ''a'', CHR ''b'', CHR ''c''] (CHR ''c'') 100
     = ([CHR ''c'', CHR ''a'', CHR ''b''],
        [(CHR ''c'', 0), (CHR ''a'', 2), (CHR ''b'', 4)])
   \<and> py_round_div 120 (CELL_WIDTH * 2) = 0
   \<and> py_round_div 360 (CELL_WIDTH * 2) = 2"
proof -
  note ev = reorder_label_def target_index_def py_round_div_def CELL_WIDTH_def
    list_insert_def grid_columns_def upt_rec Let_def
  have v: "reorder_label [CHR ''a'', CHR ''b'', CHR ''c''] (CHR ''a'') 480
     = ([CHR ''b'', CHR ''c'', CHR ''a''],
        [(CHR ''b'', 0), (CHR ''c'', 2), (CHR ''a'', 4)])"
    by (simp add: ev)
  have v2: "reorder_label [CHR ''a'', CHR ''b'', CHR ''c''] (CHR ''a'') 250
     = ([CHR ''b'', CHR ''a'', CHR ''c''],
        [(CHR ''b'', 0), (CHR ''a'', 2), (CHR ''c'', 4)])"
    by (simp add: ev)
  have v3: "reorder_label [CHR ''a'', CHR ''b'', CHR ''c''] (CHR ''c'') 100
     = ([CHR ''c'', CHR ''a'', CHR ''b''],
        [(CHR ''c'', 0), (CHR ''a'', 2), (CHR ''b'', 4)])"
    by (simp add: ev)
  have t: "target_index [CHR ''a'', CHR ''b'', CHR ''c''] 250 = 1"
    by (simp add: ev)
  have r1: "py_round_div 120 (CELL_WIDTH * 2) = 0" by (simp add: ev)
  have r2: "py_round_div 360 (CELL_WIDTH * 2) = 2" by (simp add: ev)
  have l: "(int (length [CHR ''a'', CHR ''b'', CHR ''c'']) - 1) * (CELL_WIDTH * 2) = 480"
    by (simp add: CELL_WIDTH_def)
  have m: "CHR ''a'' \<in> set [CHR ''a'', CHR ''b'', CHR ''c'']" by simp
  from C9_reorder_label_clamp [of 250 "[CHR ''a'', CHR ''b'', CHR ''c'']" "CHR ''a''"] m
  have n: "fst (reorder_label [CHR ''a'', CHR ''b'', CHR ''c''] (CHR ''a'') 250)
       ! nat (target_index [CHR ''a'', CHR ''b'', CHR ''c''] 250) = CHR ''a''"
    by blast
  have c: "[CHR ''a'', CHR ''b'', CHR ''c''] \<noteq> []
   \<and> (int (length [CHR ''a'', CHR ''b'', CHR ''c'']) - 1) * (CELL_WIDTH * 2) \<le> 5000
   \<and> CHR ''a'' \<in> set [CHR ''a'', CHR ''b'', CHR ''c'']
   \<and> reorder_label [CHR ''a'', CHR ''b'', CHR ''c''] (CHR ''a'') 5000
     = reorder_label [CHR ''a'', CHR ''b'', CHR ''c''] (CHR ''a'') 480
   \<and> reorder_label [CHR ''a'', CHR ''b'', CHR ''c''] (CHR ''a'') 480
     = ([CHR ''b'', CHR ''c'', CHR ''a''],
        [(CHR ''b'', 0), (CHR ''c'', 2), (CHR ''a'', 4)])
   \<and> mset (fst (reorder_label [CHR ''a'', CHR ''b'', CHR ''c''] (CHR ''a'') 5000))
     = mset [CHR ''a'', CHR ''b'', CHR ''c'']"
    using C9_reorder_label_clamp [of 5000 "[CHR ''a'', CHR ''b'', CHR ''c'']" "CHR ''a''"]
    unfolding l v by simp
  from c t v2 n v3 r1 r2 show ?thesis by blast
qed

subsection \<open>Renaming\<close>

lemma rename_files_mismatch:
  assumes "length original_files \<noteq> length (discard_first_empty new_names)"
  shows "rename_files os_rename fs original_files new_names
         = (Some (ValueError ''The number of original files and new names does not match.''), fs)"
  using assms by (simp add: rename_files_def)

lemma rename_files_loop:
  assumes "length original_files = length (discard_first_empty new_names)"
  shows "rename_files os_rename fs original_files new_names
         = rename_loop os_rename fs (zip original_files (discard_first_empty new_names))"
  using assms by (simp add: rename_files_def)

lemma rename_loop_Cons:
  "rename_loop os_rename fs ((original, new) # rest) =
     (case os_rename fs (source_of original) (destination_of original new) of
        Inl errno \<Rightarrow> (Some (OSError errno (source_of original) (destination_of original new)), fs)
      | Inr fs' \<Rightarrow> rename_loop os_rename fs' rest)"
  by (simp add: path_rename_def source_of_def destination_of_def Let_def split: sum.splits)

declare rename_loop.simps(2) [simp del]

lemma rename_loop_trace:
  "\<exists>k fss. k \<le> length ps \<and> length fss = Suc k \<and> fss ! 0 = fs
     \<and> (\<forall>i<k. os_rename (fss ! i) (source_of (fst (ps ! i)))
                  (destination_of (fst (ps ! i)) (snd (ps ! i))) = Inr (fss ! Suc i))
     \<and> (if k = length ps then rename_loop os_rename fs ps = (None, fss ! k)
         else \<exists>errno.
                os_rename (fss ! k) (source_of (fst (ps ! k)))
                  (destination_of (fst (ps ! k)) (snd (ps ! k))) = Inl errno
              \<and> rename_loop os_rename fs ps
                = (Some (OSError errno (source_of (fst (ps ! k)))
                           (destination_of (fst (ps ! k)) (snd (ps ! k)))), fss ! k))"
proof (induction ps arbitrary: fs)
  case Nil
  show ?case by (rule exI [of _ 0], rule exI [of _ "[fs]"]) simp
next
  case (Cons p ps)
  obtain original new where p: "p = (original, new)" by (cases p)
  show ?case
  proof (cases "os_rename fs (source_of original) (destination_of original new)")
    case (Inl errno)
    show ?thesis
      by (rule exI [of _ 0], rule exI [of _ "[fs]"]) (simp add: p rename_loop_Cons Inl)
  next
    case (Inr fs')
    from Cons.IH [of fs'] obtain k fss where
      k: "k \<le> length ps" and len: "length fss = Suc k" and start: "fss ! 0 = fs'"
      and steps: "\<forall>i<k. os_rename (fss ! i) (source_of (fst (ps ! i)))
                  (destination_of (fst (ps ! i)) (snd (ps ! i))) = Inr (fss ! Suc i)"
      and final: "if k = length ps then rename_loop os_rename fs' ps = (None, fss ! k)
         else \<exists>errno.
                os_rename (fss ! k) (source_of (fst (ps ! k)))
                  (destination_of (fst (ps ! k)) (snd (ps ! k))) = Inl errno
              \<and> rename_loop os_rename fs' ps
                = (Some (OSError errno (source_of (fst (ps ! k)))
                           (destination_of (fst (ps ! k)) (snd (ps ! k)))), fss ! k)"
      by blast
    have steps': "os_rename ((fs # fss) ! i) (source_of (fst ((p # ps) ! i)))
                  (destination_of (fst ((p # ps) ! i)) (snd ((p # ps) ! i)))
                = Inr ((fs # fss) ! Suc i)" if "i < Suc k" for i
    proof (cases i)
      case 0
      then show ?thesis using Inr start by (simp add: p)
    next
      case (Suc j)
      then show ?thesis using steps that by simp
    qed
    show ?thesis
      apply (rule exI [of _ "Suc k"], rule exI [of _ "fs # fss"])
      using k len steps' final by (simp add: p rename_loop_Cons Inr)
  qed
qed

lemma split_on_nonempty: "split_on sep s \<noteq> []"
  by (induction s) (auto split: list.splits)

lemma split_on_no_sep: "w \<in> set (split_on sep s) \<Longrightarrow> sep \<notin> set w"
proof (induction s arbitrary: w)
  case Nil
  then show ?case by simp
next
  case (Cons c cs)
  then show ?case
    by (cases "split_on sep cs") (auto split: if_splits)
qed

lemma split_on_without_sep: "sep \<notin> set s \<Longrightarrow> split_on sep s = [s]"
  by (induction s) auto

lemma Path_tail_no_slash: "w \<in> set (tail (Path s)) \<Longrightarrow> CHR ''/'' \<notin> set w"
  by (auto simp: Path_def split: prod.splits dest: split_on_no_sep)

lemma rfind_drop:
  assumes "0 \<le> rfind n c"
  shows "c \<in> set n" and "drop (nat (rfind n c)) n = c # rev (takeWhile (\<lambda>x. x \<noteq> c) (rev n))"
proof -
  show mem: "c \<in> set n" using assms by (auto simp: rfind_def split: if_splits)
  then have r: "c \<in> set (rev n)" by simp
  let ?t = "takeWhile (\<lambda>x. x \<noteq> c) (rev n)"
  let ?d = "dropWhile (\<lambda>x. x \<noteq> c) (rev n)"
  have d: "?d \<noteq> []" using r by (simp add: dropWhile_eq_Nil_conv) 
  then have hd: "hd ?d = c" using hd_dropWhile [of "\<lambda>x. x \<noteq> c" "rev n"] by simp
  then obtain ds where ds: "?d = c # ds" using d by (cases ?d) auto
  have "rev n = ?t @ c # ds" using takeWhile_dropWhile_id [of "\<lambda>x. x \<noteq> c" "rev n"] ds by simp
  then have n: "n = rev ds @ c # rev ?t" by (metis rev_append rev.simps(2) rev_rev_ident append.assoc append_Cons append_Nil)
  have len: "length n = length ds + 1 + length ?t" by (subst n) simp
  have "rfind n c = int (length ds)" using mem len by (simp add: rfind_def)
  then have "drop (nat (rfind n c)) n = drop (length ds) (rev ds @ c # rev ?t)" using n by simp
  also have "\<dots> = c # rev ?t" by simp
  finally show "drop (nat (rfind n c)) n = c # rev (takeWhile (\<lambda>x. x \<noteq> c) (rev n))" .
qed

lemma path_suffix_shape:
  assumes "path_suffix p \<noteq> []"
  shows "tail p \<noteq> []"
    and "\<exists>rest. path_suffix p = CHR ''.'' # rest \<and> rest \<noteq> []"
    and "set (path_suffix p) \<subseteq> set (last (tail p))"
proof -
  let ?n = "path_name p"
  let ?i = "rfind ?n CHR ''.''"
  from assms have i: "0 < ?i" "?i < int (length ?n) - 1" and s: "path_suffix p = drop (nat ?i) ?n"
    by (auto simp: path_suffix_def Let_def split: if_splits)
  from i have "?n \<noteq> []" by auto
  then show t: "tail p \<noteq> []" by (auto simp: path_name_def split: if_splits)
  have "length (drop (nat ?i) ?n) \<ge> 2" using i by simp
  moreover have "drop (nat ?i) ?n = CHR ''.'' # rev (takeWhile (\<lambda>x. x \<noteq> CHR ''.'') (rev ?n))"
    using rfind_drop(2) [of ?n "CHR ''.''"] i by simp
  ultimately show "\<exists>rest. path_suffix p = CHR ''.'' # rest \<and> rest \<noteq> []"
    unfolding s by (cases "rev (takeWhile (\<lambda>x. x \<noteq> CHR ''.'') (rev ?n))") auto
  show "set (path_suffix p) \<subseteq> set (last (tail p))"
    unfolding s using t by (auto simp: path_name_def dest: in_set_dropD)
qed

lemma Path_single_component:
  assumes "s = CHR ''.'' # rest" "rest \<noteq> []" "CHR ''/'' \<notin> set s"
  shows "Path s = \<lparr>root = [], tail = [s]\<rparr>"
proof -
  have "splitroot s = ([], s)" using assms by (simp add: splitroot_def)
  moreover have "split_on CHR ''/'' s = [s]" using assms(3) by (rule split_on_without_sep)
  moreover have "s \<noteq> ''.''" using assms by auto
  ultimately show ?thesis using assms(1) by (simp add: Path_def)
qed

lemma empty_name_destination:
  assumes "path_suffix (Path original) \<noteq> []"
  shows "joinpath (path_parent (Path original)) ([] @ path_suffix (Path original))
         = \<lparr>root = root (Path original),
            tail = butlast (tail (Path original)) @ [path_suffix (Path original)]\<rparr>"
    and "path_name (joinpath (path_parent (Path original)) ([] @ path_suffix (Path original)))
         = path_suffix (Path original)"
    and "path_parent (joinpath (path_parent (Path original)) ([] @ path_suffix (Path original)))
         = path_parent (Path original)"
proof -
  let ?P = "Path original"
  let ?s = "path_suffix ?P"
  from path_suffix_shape [OF assms] obtain rest where
    t: "tail ?P \<noteq> []" and sh: "?s = CHR ''.'' # rest" "rest \<noteq> []"
    and sub: "set ?s \<subseteq> set (last (tail ?P))" by blast
  have "last (tail ?P) \<in> set (tail ?P)" using t by simp
  then have "CHR ''/'' \<notin> set (last (tail ?P))" by (rule Path_tail_no_slash)
  then have "CHR ''/'' \<notin> set ?s" using sub by blast
  then have P: "Path ?s = \<lparr>root = [], tail = [?s]\<rparr>" using sh by (intro Path_single_component)
  show j: "joinpath (path_parent ?P) ([] @ ?s)
         = \<lparr>root = root ?P, tail = butlast (tail ?P) @ [?s]\<rparr>"
    using t by (simp add: joinpath_def P path_parent_def)
  show "path_name (joinpath (path_parent ?P) ([] @ ?s)) = ?s"
    unfolding j by (simp add: path_name_def)
  show "path_parent (joinpath (path_parent ?P) ([] @ ?s)) = path_parent ?P"
    unfolding j using t by (simp add: path_parent_def)
qed

lemma rename_loop_logging:
  "rename_loop logging_rename calls ps
   = (None, calls @ map (\<lambda>(original, new). (source_of original, destination_of original new)) ps)"
proof (induction ps arbitrary: calls)
  case Nil
  show ?case by simp
next
  case (Cons p ps)
  obtain original new where p: "p = (original, new)" by (cases p)
  have step: "logging_rename calls (source_of original) (destination_of original new)
              = Inr (calls @ [(source_of original, destination_of original new)])"
    by (simp add: logging_rename_def)
  show ?case by (simp add: p rename_loop_Cons step Cons.IH)
qed

lemmas path_eval =
  source_of_def destination_of_def Path_def splitroot_def str_path_def path_name_def
  path_suffix_def path_parent_def joinpath_def rfind_def Let_def

text \<open>
  Claim C1, as amended. When, after a leading empty name is dropped, the two lists differ
  in length, \<^verbatim>\<open>rename_files\<close> raises the \<^verbatim>\<open>ValueError\<close> with the fixed message
  \<open>The number of original files and new names does not match.\<close> and leaves the file
  system as it was, whatever the system call would do; run on the logging instance it
  records no call. The message holds no digit, so it states neither count.
\<close>

theorem C1_count_mismatch:
  fixes os_rename :: "'fs \<Rightarrow> string \<Rightarrow> string \<Rightarrow> nat + 'fs"
  assumes "length original_files \<noteq> length (discard_first_empty new_names)"
  shows "rename_files os_rename fs original_files new_names
           = (Some (ValueError ''The number of original files and new names does not match.''), fs)
       \<and> rename_files logging_rename [] original_files new_names
           = (Some (ValueError ''The number of original files and new names does not match.''), [])
       \<and> (\<forall>c \<in> set ''The number of original files and new names does not match.''. \<not> is_digit c)"
proof -
  have "\<forall>c \<in> set ''The number of original files and new names does not match.''. \<not> is_digit c"
    by (simp add: is_digit_def)
  with rename_files_mismatch [OF assms, of os_rename fs]
    rename_files_mismatch [OF assms, of logging_rename "[]"]
  show ?thesis by (intro conjI)
qed

text \<open>Three files and, after the leading empty name is dropped, two names.\<close>

theorem C1_count_mismatch_witness:
  "length [''/d/a.pdf'', ''/d/b.pdf'', ''/d/c.pdf''] \<noteq> length (discard_first_empty ['''', ''x'', ''y''])
   \<and> rename_files listing_rename [''/d/a.pdf'', ''/d/b.pdf'', ''/d/c.pdf'']
        [''/d/a.pdf'', ''/d/b.pdf'', ''/d/c.pdf''] ['''', ''x'', ''y'']
      = (Some (ValueError ''The number of original files and new names does not match.''),
         [''/d/a.pdf'', ''/d/b.pdf'', ''/d/c.pdf''])"
proof -
  have h: "length [''/d/a.pdf'', ''/d/b.pdf'', ''/d/c.pdf'']
           \<noteq> length (discard_first_empty ['''', ''x'', ''y''])"
    by (simp add: discard_first_empty_def)
  show ?thesis
    using h C1_count_mismatch [OF h, where os_rename = listing_rename
      and fs = "[''/d/a.pdf'', ''/d/b.pdf'', ''/d/c.pdf'']"]
    by simp
qed

text \<open>
  Claim C1 as stated asks the failure detail to name both counts. For three files and two
  names the detail contains neither \<open>3\<close> nor \<open>2\<close>.
\<close>

theorem C1_detail_without_counts:
  "fst (rename_files listing_rename [''/d/a.pdf'', ''/d/b.pdf'', ''/d/c.pdf'']
          [''/d/a.pdf'', ''/d/b.pdf'', ''/d/c.pdf''] [''x'', ''y''])
     = Some (ValueError ''The number of original files and new names does not match.'')
   \<and> \<not> sublist (str_nat 3) ''The number of original files and new names does not match.''
   \<and> \<not> sublist (str_nat 2) ''The number of original files and new names does not match.''"
  by (simp add: rename_files_def discard_first_empty_def str_nat.simps digit_char_def
      sublist_Cons_right)

text \<open>
  Claim C7. When the lengths agree at the length check (after a leading empty name is
  dropped), \<^verbatim>\<open>rename_files\<close> works through the pairs in order: there are \<open>k\<close> pairs
  that were renamed one after the other, each on the file system its predecessor left
  (\<open>fss\<close> lists these file systems), each from the original path to the parent of the
  original joined with the new name plus the original's suffix. Either \<open>k\<close> is the
  number of pairs and the function returns normally, or the system call fails on pair
  \<open>k\<close>: then the function raises the \<^verbatim>\<open>OSError\<close> of that call, which carries the
  error number and both paths of pair \<open>k\<close>, no later pair is touched, and the file system
  is the one after the \<open>k\<close> renames that succeeded. When the original paths are
  distinct, the path in the error determines the index \<open>k\<close>.
\<close>

theorem C7_rename_in_order:
  fixes os_rename :: "'fs \<Rightarrow> string \<Rightarrow> string \<Rightarrow> nat + 'fs"
  assumes "length original_files = length (discard_first_empty new_names)"
  shows "\<exists>k fss. k \<le> length original_files \<and> length fss = Suc k \<and> fss ! 0 = fs
     \<and> (\<forall>i<k. os_rename (fss ! i) (source_of (original_files ! i))
                  (destination_of (original_files ! i) (discard_first_empty new_names ! i))
                = Inr (fss ! Suc i))
     \<and> (if k = length original_files
         then rename_files os_rename fs original_files new_names = (None, fss ! k)
         else \<exists>errno.
                os_rename (fss ! k) (source_of (original_files ! k))
                  (destination_of (original_files ! k) (discard_first_empty new_names ! k))
                = Inl errno
              \<and> rename_files os_rename fs original_files new_names
                = (Some (OSError errno (source_of (original_files ! k))
                           (destination_of (original_files ! k)
                              (discard_first_empty new_names ! k))), fss ! k)
              \<and> (distinct (map source_of original_files) \<longrightarrow>
                   (\<forall>j<length original_files.
                      source_of (original_files ! j) = source_of (original_files ! k)
                      \<longrightarrow> j = k)))"
proof -
  let ?names = "discard_first_empty new_names"
  let ?ps = "zip original_files ?names"
  have len: "length ?ps = length original_files" using assms by simp
  have nth: "fst (?ps ! i) = original_files ! i \<and> snd (?ps ! i) = ?names ! i"
    if "i < length original_files" for i
    using that assms by simp
  from rename_loop_trace [of ?ps fs os_rename] obtain k fss where
    k: "k \<le> length ?ps" and l: "length fss = Suc k" and s: "fss ! 0 = fs"
    and steps: "\<forall>i<k. os_rename (fss ! i) (source_of (fst (?ps ! i)))
                  (destination_of (fst (?ps ! i)) (snd (?ps ! i))) = Inr (fss ! Suc i)"
    and final: "if k = length ?ps then rename_loop os_rename fs ?ps = (None, fss ! k)
         else \<exists>errno.
                os_rename (fss ! k) (source_of (fst (?ps ! k)))
                  (destination_of (fst (?ps ! k)) (snd (?ps ! k))) = Inl errno
              \<and> rename_loop os_rename fs ?ps
                = (Some (OSError errno (source_of (fst (?ps ! k)))
                           (destination_of (fst (?ps ! k)) (snd (?ps ! k)))), fss ! k)"
    by blast
  have run: "rename_files os_rename fs original_files new_names = rename_loop os_rename fs ?ps"
    using assms by (rule rename_files_loop)
  have steps': "\<forall>i<k. os_rename (fss ! i) (source_of (original_files ! i))
                  (destination_of (original_files ! i) (?names ! i)) = Inr (fss ! Suc i)"
    using steps k len nth by auto
  have uniq: "distinct (map source_of original_files) \<longrightarrow>
                (\<forall>j<length original_files.
                   source_of (original_files ! j) = source_of (original_files ! k) \<longrightarrow> j = k)"
    if "k < length original_files"
  proof (intro impI allI)
    fix j
    assume d: "distinct (map source_of original_files)" and j: "j < length original_files"
      and e: "source_of (original_files ! j) = source_of (original_files ! k)"
    have "map source_of original_files ! j = map source_of original_files ! k"
      using e j that by simp
    moreover have "j < length (map source_of original_files)"
      "k < length (map source_of original_files)" using j that by simp_all
    ultimately show "j = k" using d nth_eq_iff_index_eq by blast
  qed
  show ?thesis
  proof (cases "k = length original_files")
    case True
    then have "rename_files os_rename fs original_files new_names = (None, fss ! k)"
      using final len run by simp
    then show ?thesis using True l s steps' by (intro exI [of _ k] exI [of _ fss]) simp
  next
    case False
    then have kl: "k < length original_files" using k len by simp
    from False final len obtain errno where
      e1: "os_rename (fss ! k) (source_of (fst (?ps ! k)))
                  (destination_of (fst (?ps ! k)) (snd (?ps ! k))) = Inl errno"
      and e2: "rename_loop os_rename fs ?ps
                = (Some (OSError errno (source_of (fst (?ps ! k)))
                           (destination_of (fst (?ps ! k)) (snd (?ps ! k)))), fss ! k)"
      by auto
    have n: "fst (?ps ! k) = original_files ! k" "snd (?ps ! k) = ?names ! k"
      using nth [OF kl] by simp_all
    show ?thesis
      apply (intro exI [of _ k] exI [of _ fss])
      using False kl l s steps' e1 e2 uniq [OF kl] unfolding n run by auto
  qed
qed

text \<open>
  Three files; the second new name collides with the third file, so the rename stops at
  index 1 with the first file already renamed.
\<close>

theorem C7_rename_in_order_witness:
  "length [''/d/a.pdf'', ''/d/b.pdf'', ''/d/c.pdf''] = length (discard_first_empty [''x'', ''c'', ''z''])
   \<and> rename_files listing_rename [''/d/a.pdf'', ''/d/b.pdf'', ''/d/c.pdf'']
        [''/d/a.pdf'', ''/d/b.pdf'', ''/d/c.pdf''] [''x'', ''c'', ''z'']
      = (Some (OSError EEXIST ''/d/b.pdf'' ''/d/c.pdf''), [''/d/x.pdf'', ''/d/b.pdf'', ''/d/c.pdf''])
   \<and> (\<exists>k fss. k \<le> length [''/d/a.pdf'', ''/d/b.pdf'', ''/d/c.pdf''] \<and> length fss = Suc k
        \<and> fss ! 0 = [''/d/a.pdf'', ''/d/b.pdf'', ''/d/c.pdf'']
        \<and> (\<forall>i<k. listing_rename (fss ! i) (source_of ([''/d/a.pdf'', ''/d/b.pdf'', ''/d/c.pdf''] ! i))
                  (destination_of ([''/d/a.pdf'', ''/d/b.pdf'', ''/d/c.pdf''] ! i)
                     (discard_first_empty [''x'', ''c'', ''z''] ! i))
                = Inr (fss ! Suc i))
        \<and> (if k = length [''/d/a.pdf'', ''/d/b.pdf'', ''/d/c.pdf'']
            then rename_files listing_rename [''/d/a.pdf'', ''/d/b.pdf'', ''/d/c.pdf'']
                   [''/d/a.pdf'', ''/d/b.pdf'', ''/d/c.pdf''] [''x'', ''c'', ''z'']
                 = (None, fss ! k)
            else \<exists>errno.
                listing_rename (fss ! k) (source_of ([''/d/a.pdf'', ''/d/b.pdf'', ''/d/c.pdf''] ! k))
                  (destination_of ([''/d/a.pdf'', ''/d/b.pdf'', ''/d/c.pdf''] ! k)
                     (discard_first_empty [''x'', ''c'', ''z''] ! k))
                = Inl errno
              \<and> rename_files listing_rename [''/d/a.pdf'', ''/d/b.pdf'', ''/d/c.pdf'']
                   [''/d/a.pdf'', ''/d/b.pdf'', ''/d/c.pdf''] [''x'', ''c'', ''z'']
                = (Some (OSError errno (source_of ([''/d/a.pdf'', ''/d/b.pdf'', ''/d/c.pdf''] ! k))
                           (destination_of ([''/d/a.pdf'', ''/d/b.pdf'', ''/d/c.pdf''] ! k)
                              (discard_first_empty [''x'', ''c'', ''z''] ! k))), fss ! k)
              \<and> (distinct (map source_of [''/d/a.pdf'', ''/d/b.pdf'', ''/d/c.pdf'']) \<longrightarrow>
                   (\<forall>j<length [''/d/a.pdf'', ''/d/b.pdf'', ''/d/c.pdf''].
                      source_of ([''/d/a.pdf'', ''/d/b.pdf'', ''/d/c.pdf''] ! j)
                      = source_of ([''/d/a.pdf'', ''/d/b.pdf'', ''/d/c.pdf''] ! k)
                      \<longrightarrow> j = k))))"
proof -
  have h: "length [''/d/a.pdf'', ''/d/b.pdf'', ''/d/c.pdf'']
           = length (discard_first_empty [''x'', ''c'', ''z''])"
    by (simp add: discard_first_empty_def)
  have v: "rename_files listing_rename [''/d/a.pdf'', ''/d/b.pdf'', ''/d/c.pdf'']
        [''/d/a.pdf'', ''/d/b.pdf'', ''/d/c.pdf''] [''x'', ''c'', ''z'']
      = (Some (OSError EEXIST ''/d/b.pdf'' ''/d/c.pdf''), [''/d/x.pdf'', ''/d/b.pdf'', ''/d/c.pdf''])"
    by (simp add: rename_files_def discard_first_empty_def rename_loop_Cons listing_rename_def
        path_eval)
  note t = C7_rename_in_order [OF h, where os_rename = listing_rename
      and fs = "[''/d/a.pdf'', ''/d/b.pdf'', ''/d/c.pdf'']"]
  show ?thesis using h v t by (intro conjI)
qed

text \<open>
  Claim C10. Only a leading empty name is dropped: an empty name at a position \<open>j > 0\<close>
  is kept, and from that position on the list is unchanged. It is paired with the file
  at index \<open>i\<close> (\<open>j - 1\<close> if a leading empty name was dropped, else \<open>j\<close>). For a file
  that has a suffix, the call made for this pair renames the file to its parent directory
  joined with the suffix alone: the name of the destination is the suffix and its parent
  is the parent of the original.
\<close>

theorem C10_later_empty_name_kept:
  assumes "0 < j" and "j < length new_names" and "new_names ! j = []"
    and "length original_files = length (discard_first_empty new_names)"
    and "i = (if hd new_names = [] then j - 1 else j)"
    and "path_suffix (Path (original_files ! i)) \<noteq> []"
  shows "drop i (discard_first_empty new_names) = drop j new_names
       \<and> discard_first_empty new_names ! i = []
       \<and> (\<exists>calls. rename_files logging_rename [] original_files new_names = (None, calls)
            \<and> length calls = length original_files
            \<and> calls ! i = (source_of (original_files ! i),
                           destination_of (original_files ! i) []))
       \<and> destination_of (original_files ! i) []
         = str_path \<lparr>root = root (Path (original_files ! i)),
                     tail = butlast (tail (Path (original_files ! i)))
                            @ [path_suffix (Path (original_files ! i))]\<rparr>
       \<and> path_name (joinpath (path_parent (Path (original_files ! i)))
                      ([] @ path_suffix (Path (original_files ! i))))
         = path_suffix (Path (original_files ! i))
       \<and> path_parent (joinpath (path_parent (Path (original_files ! i)))
                        ([] @ path_suffix (Path (original_files ! i))))
         = path_parent (Path (original_files ! i))"
proof -
  let ?names = "discard_first_empty new_names"
  let ?ps = "zip original_files ?names"
  have ne: "new_names \<noteq> []" using assms(2) by auto
  have dr: "drop i ?names = drop j new_names"
  proof (cases "hd new_names = []")
    case True
    then have "?names = tl new_names" "i = j - 1"
      using ne assms(5) by (simp_all add: discard_first_empty_def)
    then show ?thesis using assms(1) by (simp add: drop_Suc [symmetric])
  next
    case False
    then show ?thesis using assms(5) by (simp add: discard_first_empty_def)
  qed
  have "length (drop i ?names) = length (drop j new_names)" using dr by simp
  then have il: "i < length ?names" using assms(2) by simp
  have "?names ! i = hd (drop i ?names)" using il by (simp add: hd_drop_conv_nth)
  also have "\<dots> = new_names ! j" unfolding dr using assms(2) by (simp add: hd_drop_conv_nth)
  finally have e: "?names ! i = []" using assms(3) by simp
  have ilf: "i < length original_files" using il assms(4) by simp
  have run: "rename_files logging_rename [] original_files new_names
             = (None, map (\<lambda>(original, new). (source_of original, destination_of original new)) ?ps)"
    using rename_files_loop [OF assms(4), of logging_rename "[]"]
    by (simp add: rename_loop_logging)
  have call: "map (\<lambda>(original, new). (source_of original, destination_of original new)) ?ps ! i
              = (source_of (original_files ! i), destination_of (original_files ! i) [])"
    using ilf il e by simp
  have calls: "\<exists>calls. rename_files logging_rename [] original_files new_names = (None, calls)
            \<and> length calls = length original_files
            \<and> calls ! i = (source_of (original_files ! i),
                           destination_of (original_files ! i) [])"
    using run call assms(4) by simp
  note d = empty_name_destination [OF assms(6)]
  have dst: "destination_of (original_files ! i) []
         = str_path \<lparr>root = root (Path (original_files ! i)),
                     tail = butlast (tail (Path (original_files ! i)))
                            @ [path_suffix (Path (original_files ! i))]\<rparr>"
    unfolding destination_of_def d(1) ..
  from dr e calls dst d(2) d(3) show ?thesis by (intro conjI)
qed

text \<open>The second of two names is empty: \<open>/d/b.pdf\<close> is renamed to \<open>/d/.pdf\<close>.\<close>

theorem C10_later_empty_name_kept_witness:
  "(0::nat) < 1 \<and> (1::nat) < length [''x'', '''']
   \<and> [''x'', ''''] ! 1 = []
   \<and> length [''/d/a.pdf'', ''/d/b.pdf''] = length (discard_first_empty [''x'', ''''])
   \<and> (1::nat) = (if hd [''x'', ''''] = [] then 1 - 1 else 1)
   \<and> path_suffix (Path ([''/d/a.pdf'', ''/d/b.pdf''] ! 1)) \<noteq> []
   \<and> rename_files logging_rename [] [''/d/a.pdf'', ''/d/b.pdf''] [''x'', '''']
     = (None, [(''/d/a.pdf'', ''/d/x.pdf''), (''/d/b.pdf'', ''/d/.pdf'')])
   \<and> destination_of ([''/d/a.pdf'', ''/d/b.pdf''] ! 1) [] = ''/d/.pdf''
   \<and> path_name (joinpath (path_parent (Path ([''/d/a.pdf'', ''/d/b.pdf''] ! 1)))
                  ([] @ path_suffix (Path ([''/d/a.pdf'', ''/d/b.pdf''] ! 1))))
     = ''.pdf''"
proof -
  have h1: "(0::nat) < 1" by simp
  have h2: "(1::nat) < length [''x'', '''']" by simp
  have h3: "[''x'', ''''] ! 1 = []" by simp
  have h4: "length [''/d/a.pdf'', ''/d/b.pdf''] = length (discard_first_empty [''x'', ''''])"
    by (simp add: discard_first_empty_def)
  have h5: "(1::nat) = (if hd [''x'', ''''] = [] then 1 - 1 else 1)" by simp
  have h6: "path_suffix (Path ([''/d/a.pdf'', ''/d/b.pdf''] ! 1)) \<noteq> []"
    by (simp add: path_eval)
  have s: "path_suffix (Path ([''/d/a.pdf'', ''/d/b.pdf''] ! 1)) = ''.pdf''"
    by (simp add: path_eval)
  have v: "rename_files logging_rename [] [''/d/a.pdf'', ''/d/b.pdf''] [''x'', '''']
     = (None, [(''/d/a.pdf'', ''/d/x.pdf''), (''/d/b.pdf'', ''/d/.pdf'')])"
    by (simp add: rename_files_def discard_first_empty_def rename_loop_Cons logging_rename_def
        path_eval)
  have d: "destination_of ([''/d/a.pdf'', ''/d/b.pdf''] ! 1) [] = ''/d/.pdf''"
    by (simp add: path_eval)
  note t = C10_later_empty_name_kept [OF h1 h2 h3 h4 h5 h6]
  from t have n: "path_name (joinpath (path_parent (Path ([''/d/a.pdf'', ''/d/b.pdf''] ! 1)))
                  ([] @ path_suffix (Path ([''/d/a.pdf'', ''/d/b.pdf''] ! 1))))
     = path_suffix (Path ([''/d/a.pdf'', ''/d/b.pdf''] ! 1))" by blast
  show ?thesis using h1 h2 h3 h4 h5 h6 v d trans [OF n s] by (intro conjI)
qed

subsection \<open>Validation of the template and of the entries\<close>

lemma validate_chars_iff: "validate_chars s \<longleftrightarrow> set s \<subseteq> set ALLOWED_CHARS"
  by (induction s) auto

lemma validate_input_iff: "validate_input s \<longleftrightarrow> set s \<subseteq> set ALLOWED_CHARS"
  by (simp add: validate_input_def validate_chars_iff)

lemma format_matches_all_class:
  assumes "s \<noteq> []" "\<forall>c \<in> set s. format_class c"
  shows "format_matches s"
proof -
  have "takeWhile format_class s = s"
    using assms(2) by (simp only: takeWhile_eq_all_conv)
  moreover have "dropWhile format_class s = []"
    using assms(2) by (simp only: dropWhile_eq_Nil_conv)
  ultimately show ?thesis using assms(1) by (simp only: format_matches_def Let_def) simp
qed

lemma format_matches_rejects:
  assumes "c \<in> set s" "\<not> format_class c" "c \<noteq> CHR 0x0A"
  shows "\<not> format_matches s"
proof
  assume m: "format_matches s"
  let ?run = "takeWhile format_class s"
  let ?rest = "dropWhile format_class s"
  have s: "s = ?run @ ?rest" by simp
  have "c \<notin> set ?run" using assms(2) by (auto dest: set_takeWhileD)
  then have in_rest: "c \<in> set ?rest" using assms(1) s by (metis Un_iff set_append)
  from m have "?rest = [] \<or> ?rest = [CHR 0x0A]"
    by (simp only: format_matches_def Let_def)
  then show False
  proof
    assume "?rest = []"
    with in_rest show False by (simp only: set_simps empty_iff)
  next
    assume "?rest = [CHR 0x0A]"
    with in_rest have "c = CHR 0x0A" by (simp only: set_simps insert_iff empty_iff) blast
    with assms(3) show False by blast
  qed
qed

text \<open>
  Claim C2, as amended. At confirm time a template that is not empty and consists of
  alphanumerics, underscores, hyphens, dots and spaces passes the check for invalid
  characters; the dot, which every assembled template carries in its extension, is
  accepted. A template that contains any character other than an alphanumeric, the
  underscore, the hyphen, the dot, the space, the comma, the semicolon or the line feed
  is rejected. The text of a separator entry is validated against another list: it is
  accepted exactly when each of its characters is a hyphen, an underscore, a comma, a
  semicolon or a space.
\<close>

theorem C2_format_validation:
  "(s \<noteq> [] \<and> (\<forall>c \<in> set s. is_alnum c \<or> c \<in> {CHR ''_'', CHR ''-'', CHR ''.'', CHR '' ''})
      \<longrightarrow> format_matches s)
   \<and> ((\<exists>c \<in> set s. \<not> is_alnum c
          \<and> c \<notin> {CHR ''_'', CHR ''-'', CHR ''.'', CHR '' '', CHR '','', CHR '';'', CHR 0x0A})
      \<longrightarrow> \<not> format_matches s)
   \<and> (validate_input e \<longleftrightarrow> (\<forall>c \<in> set e. c \<in> {CHR ''-'', CHR ''_'', CHR '','', CHR '';'', CHR '' ''}))"
proof (intro conjI impI)
  assume "s \<noteq> [] \<and> (\<forall>c \<in> set s. is_alnum c \<or> c \<in> {CHR ''_'', CHR ''-'', CHR ''.'', CHR '' ''})"
  then show "format_matches s"
    by (intro format_matches_all_class) (auto simp: format_class_def is_word_def)
next
  assume "\<exists>c \<in> set s. \<not> is_alnum c
          \<and> c \<notin> {CHR ''_'', CHR ''-'', CHR ''.'', CHR '' '', CHR '','', CHR '';'', CHR 0x0A}"
  then obtain c where "c \<in> set s" "\<not> format_class c" "c \<noteq> CHR 0x0A"
    by (auto simp: format_class_def is_word_def)
  then show "\<not> format_matches s" by (rule format_matches_rejects)
next
  show "validate_input e \<longleftrightarrow> (\<forall>c \<in> set e. c \<in> {CHR ''-'', CHR ''_'', CHR '','', CHR '';'', CHR '' ''})"
    by (auto simp: validate_input_iff ALLOWED_CHARS_def)
qed

text \<open>
  The template \<open>A-B.pdf\<close>, built from two fields and the separator \<open>-\<close>, passes;
  \<open>A/B.pdf\<close> is rejected; the entry text \<open>-_\<close> is accepted.
\<close>

theorem C2_format_validation_witness:
  "build_filename [''A'', ''B''] [''-''] ''.pdf'' = ''A-B.pdf''
   \<and> ''A-B.pdf'' \<noteq> []
   \<and> list_all (\<lambda>c. is_alnum c \<or> c \<in> {CHR ''_'', CHR ''-'', CHR ''.'', CHR '' ''}) ''A-B.pdf''
   \<and> format_matches ''A-B.pdf''
   \<and> (\<exists>c \<in> set ''A/B.pdf''. \<not> is_alnum c
          \<and> c \<notin> {CHR ''_'', CHR ''-'', CHR ''.'', CHR '' '', CHR '','', CHR '';'', CHR 0x0A})
   \<and> \<not> format_matches ''A/B.pdf''
   \<and> validate_input ''-_''"
proof -
  have b: "build_filename [''A'', ''B''] [''-''] ''.pdf'' = ''A-B.pdf''"
    by (simp add: build_filename_def)
  have h1: "''A-B.pdf'' \<noteq> []
        \<and> (\<forall>c \<in> set ''A-B.pdf''. is_alnum c \<or> c \<in> {CHR ''_'', CHR ''-'', CHR ''.'', CHR '' ''})"
    by (simp add: is_alnum_def)
  have h2: "\<exists>c \<in> set ''A/B.pdf''. \<not> is_alnum c
          \<and> c \<notin> {CHR ''_'', CHR ''-'', CHR ''.'', CHR '' '', CHR '','', CHR '';'', CHR 0x0A}"
    by (simp add: is_alnum_def)
  have h3: "\<forall>c \<in> set ''-_''. c \<in> {CHR ''-'', CHR ''_'', CHR '','', CHR '';'', CHR '' ''}"
    by simp
  from C2_format_validation [of "''A-B.pdf''" "''-_''"] h1 h3
  have m: "format_matches ''A-B.pdf''" and v: "validate_input ''-_''" by blast+
  from C2_format_validation [of "''A/B.pdf''" "''-_''"] h2
  have r: "\<not> format_matches ''A/B.pdf''" by blast
  from h1 have h1a: "''A-B.pdf'' \<noteq> []"
    and h1b: "\<forall>c \<in> set ''A-B.pdf''. is_alnum c \<or> c \<in> {CHR ''_'', CHR ''-'', CHR ''.'', CHR '' ''}"
    by (rule conjunct1, rule conjunct2)
  have la: "list_all (\<lambda>c. is_alnum c \<or> c \<in> {CHR ''_'', CHR ''-'', CHR ''.'', CHR '' ''}) ''A-B.pdf''"
    using h1b by (simp only: list_all_iff)
  show ?thesis using b h1a la m h2 r v by (intro conjI)
qed

text \<open>
  Claim C2 as stated fails in each of its parts. The assembled template \<open>A-B.pdf\<close>
  contains a dot, which is outside the stated allow-list, and passes. The entry text \<open>a\<close>
  is alphanumeric and is refused by the entry validation. The comma is accepted in an
  entry, and the template assembled with it is rejected at confirm time.
\<close>

theorem C2_allow_list_differs:
  "format_matches (build_filename [''A'', ''B''] [''-''] ''.pdf'')
   \<and> CHR ''.'' \<in> set (build_filename [''A'', ''B''] [''-''] ''.pdf'')
   \<and> \<not> is_alnum CHR ''.''
   \<and> CHR ''.'' \<notin> {CHR ''-'', CHR ''_'', CHR '','', CHR '';'', CHR '' ''}
   \<and> is_alnum CHR ''a'' \<and> \<not> validate_input ''a''
   \<and> validate_input '','' \<and> \<not> format_matches (build_filename [''A'', ''B''] ['',''] ''.pdf'')"
  by (simp add: build_filename_def format_matches_def format_class_def is_word_def is_alnum_def
      validate_input_def ALLOWED_CHARS_def)

subsection \<open>Missing columns\<close>

lemma sublist_prepend: "sublist xs ys \<Longrightarrow> sublist xs (ps @ ys)"
  by (metis append.assoc sublist_def)


lemma sublist_join: "c \<in> set xs \<Longrightarrow> sublist c (join sep xs)"
proof (induction sep xs rule: join.induct)
  case (1 sep)
  then show ?case by simp
next
  case (2 sep x)
  then show ?case by simp
next
  case (3 sep x y ys)
  show ?case
  proof (cases "c = x")
    case True
    then show ?thesis by simp
  next
    case False
    with 3 have "sublist c (join sep (y # ys))" by simp
    then have "sublist c ((x @ sep) @ join sep (y # ys))" by (rule sublist_prepend)
    then show ?thesis by simp
  qed
qed

text \<open>
  Claim C6. When a table is loaded and some selected field is no column of it,
  \<^verbatim>\<open>start_renaming\<close> shows the error that lists the missing columns and returns: the
  state and the file system are as before, so no name was generated and no file renamed.
  The listed columns are all the selected fields that are no columns, in the order of
  selection, and the text of each of them occurs in the message.
\<close>

theorem C6_missing_columns:
  fixes os_rename :: "'fs \<Rightarrow> string \<Rightarrow> string \<Rightarrow> nat + 'fs"
  assumes "dataframe app = Some df"
    and "\<exists>c \<in> set (selected_options app). c \<notin> set (columns df)"
  shows "start_renaming float_repr os_rename fs app
         = (ShowError (''The following columns were not found in the Excel file: ''
                        @ join '', '' (filter (\<lambda>c. c \<notin> set (columns df)) (selected_options app))),
            app, fs)
       \<and> set (filter (\<lambda>c. c \<notin> set (columns df)) (selected_options app))
         = {c \<in> set (selected_options app). c \<notin> set (columns df)}
       \<and> (\<forall>c \<in> set (selected_options app). c \<notin> set (columns df) \<longrightarrow>
            sublist c (join '', '' (filter (\<lambda>c. c \<notin> set (columns df)) (selected_options app))))"
proof -
  let ?missing = "filter (\<lambda>c. c \<notin> set (columns df)) (selected_options app)"
  have m: "missing_columns app = Inr ?missing"
    using assms(1) by (simp add: missing_columns_def)
  have ne: "?missing \<noteq> []" using assms(2) by (simp add: filter_empty_conv)
  have run: "start_renaming float_repr os_rename fs app
         = (ShowError (''The following columns were not found in the Excel file: ''
                        @ join '', '' ?missing), app, fs)"
    unfolding start_renaming_def m using ne by simp
  have all: "\<forall>c \<in> set (selected_options app). c \<notin> set (columns df) \<longrightarrow>
            sublist c (join '', '' ?missing)"
    by (auto intro: sublist_join)
  have "set ?missing = {c \<in> set (selected_options app). c \<notin> set (columns df)}" by auto
  with run all show ?thesis by (intro conjI)
qed


text \<open>Of the selected fields \<open>Year\<close>, \<open>Name\<close> and \<open>Id\<close> only \<open>Name\<close> is a column.\<close>

theorem C6_missing_columns_witness:
  "dataframe demo_app = Some \<lparr>columns = [''Name''], rows = [[CStr ''Alpha''], [CStr ''Beta'']]\<rparr>
   \<and> (\<exists>c \<in> set (selected_options demo_app).
         c \<notin> set (columns \<lparr>columns = [''Name''], rows = [[CStr ''Alpha''], [CStr ''Beta'']]\<rparr>))
   \<and> start_renaming no_float_repr listing_rename [''/d/a.pdf'', ''/d/b.pdf''] demo_app
     = (ShowError ''The following columns were not found in the Excel file: Year, Id'',
        demo_app, [''/d/a.pdf'', ''/d/b.pdf''])"
proof -
  have h1: "dataframe demo_app
            = Some \<lparr>columns = [''Name''], rows = [[CStr ''Alpha''], [CStr ''Beta'']]\<rparr>"
    by (simp add: demo_app_def)
  have h2: "\<exists>c \<in> set (selected_options demo_app).
         c \<notin> set (columns \<lparr>columns = [''Name''], rows = [[CStr ''Alpha''], [CStr ''Beta'']]\<rparr>)"
    by (simp add: demo_app_def)
  have s: "selected_options demo_app = [''Year'', ''Name'', ''Id'']"
    by (simp add: demo_app_def)
  note t = C6_missing_columns [OF h1 h2, where float_repr = no_float_repr
      and os_rename = listing_rename and fs = "[''/d/a.pdf'', ''/d/b.pdf'']"]
  then have "start_renaming no_float_repr listing_rename [''/d/a.pdf'', ''/d/b.pdf''] demo_app
     = (ShowError ''The following columns were not found in the Excel file: Year, Id'',
        demo_app, [''/d/a.pdf'', ''/d/b.pdf''])"
    unfolding s by simp
  with h1 h2 show ?thesis by (intro conjI)
qed

subsection \<open>Name generation\<close>

lemma format_row_substituted:
  assumes "\<forall>c \<in> set cols. row c \<noteq> None"
  shows "format_row float_repr row cols t = Inr (substituted_name float_repr row cols t)"
  using assms
proof (induction cols arbitrary: t)
  case Nil
  show ?case by (simp add: substituted_name_def)
next
  case (Cons c cols)
  then obtain v where v: "row c = Some v" by auto
  have "format_row float_repr row (c # cols) t
        = format_row float_repr row cols (replace t c (value_str float_repr v))"
    by (simp add: v)
  also have "\<dots> = Inr (substituted_name float_repr row cols (replace t c (value_str float_repr v)))"
    using Cons by simp
  also have "substituted_name float_repr row cols (replace t c (value_str float_repr v))
             = substituted_name float_repr row (c # cols) t"
    by (simp add: substituted_name_def v)
  finally show ?case .
qed

lemma format_rows_substituted:
  assumes "\<forall>row \<in> set rs. \<forall>c \<in> set cols. row_get dc row c \<noteq> None"
  shows "format_rows float_repr dc cols base rs acc
         = Inr (acc @ map (\<lambda>row. substituted_name float_repr (row_get dc row) cols base) rs)"
  using assms
proof (induction rs arbitrary: acc)
  case Nil
  show ?case by simp
next
  case (Cons r rs)
  have "format_row float_repr (row_get dc r) cols base
        = Inr (substituted_name float_repr (row_get dc r) cols base)"
    using Cons.prems by (intro format_row_substituted) simp
  then show ?case using Cons by simp
qed

lemma row_get_present:
  assumes "length row = length dc" "c \<in> set dc"
  shows "row_get dc row c \<noteq> None"
proof -
  have "dom (map_of (zip dc row)) = set dc" using assms(1) by (intro dom_map_of_zip) simp
  then show ?thesis using assms(2) unfolding row_get_def by blast
qed

lemma generate_substituted:
  assumes "set cols \<subseteq> set (columns df)"
    and "\<forall>row \<in> set (rows df). length row = length (columns df)"
  shows "generate_formatted_names float_repr df cols format_string
         = Inr (map (\<lambda>row. substituted_name float_repr (row_get (columns df) row) cols
                              (fst (splitext format_string))) (rows df))"
proof -
  have "row_get (columns df) row c \<noteq> None" if "row \<in> set (rows df)" "c \<in> set cols" for row c
  proof (rule row_get_present)
    show "length row = length (columns df)" using assms(2) that(1) by blast
    show "c \<in> set (columns df)" using assms(1) that(2) by blast
  qed
  then have "\<forall>row \<in> set (rows df). \<forall>c \<in> set cols. row_get (columns df) row c \<noteq> None"
    by blast
  then show ?thesis
    by (simp add: generate_formatted_names_def format_rows_substituted)
qed

lemma strip_trimmed:
  "strip s = [] \<or> (\<not> is_space (hd (strip s)) \<and> \<not> is_space (last (strip s)))"
proof (cases "strip s = []")
  case True
  then show ?thesis by simp
next
  case False
  let ?a = "dropWhile is_space s"
  let ?b = "dropWhile is_space (rev ?a)"
  have st: "strip s = rev ?b" by (simp add: strip_def)
  have b: "?b \<noteq> []" using False unfolding st by simp
  then have hb: "\<not> is_space (hd ?b)" by (rule hd_dropWhile)
  have a: "?a \<noteq> []"
  proof
    assume "?a = []"
    then have "?b = []" by (simp only: rev.simps dropWhile.simps)
    with b show False by blast
  qed
  then have ha: "\<not> is_space (hd ?a)" by (rule hd_dropWhile)
  have "rev ?a = takeWhile is_space (rev ?a) @ ?b" by simp
  then have "last (rev ?a) = last ?b" using b by (metis last_appendR)
  then have "last ?b = hd ?a" using a by (simp add: last_rev)
  then have h: "hd (strip s) = hd ?a" unfolding st using b by (simp add: hd_rev)
  have l: "last (strip s) = hd ?b" unfolding st using b by (simp add: last_rev)
  show ?thesis using h l ha hb by simp
qed

lemma strip_without_space:
  assumes "\<forall>c \<in> set s. \<not> is_space c"
  shows "strip s = s"
proof -
  have "dropWhile is_space s = s"
    using assms by (cases s) simp_all
  moreover have "dropWhile is_space (rev s) = rev s"
    using assms by (cases "rev s") (simp, metis dropWhile.simps(2) list.set_intros(1) set_rev)
  ultimately show ?thesis by (simp add: strip_def)
qed

lemma str_nat_chars: "set (str_nat n) \<subseteq> set ''0123456789''"
proof (induction n rule: str_nat.induct)
  case (1 n)
  have d: "digit_char k \<in> set ''0123456789''" if "k < 10" for k
    unfolding digit_char_def using that by (intro nth_mem) simp
  show ?case
  proof (cases "n < 10")
    case True
    then show ?thesis using d [of n] by (subst str_nat.simps) simp
  next
    case False
    then have "set (str_nat (n div 10)) \<subseteq> set ''0123456789''" using 1 by simp
    moreover have "digit_char (n mod 10) \<in> set ''0123456789''" by (rule d) simp
    ultimately show ?thesis using False by (subst str_nat.simps) simp
  qed
qed

lemma digits_no_space: "c \<in> set ''0123456789'' \<Longrightarrow> \<not> is_space c"
  by (auto simp: is_space_def)

lemma str_int_no_space: "\<forall>c \<in> set (str_int i). \<not> is_space c"
proof
  fix c assume c: "c \<in> set (str_int i)"
  have "c = CHR ''-'' \<or> c \<in> set (str_nat (nat (- i))) \<or> c \<in> set (str_nat (nat i))"
    using c unfolding str_int_def by (cases "i < 0") auto
  then have "c = CHR ''-'' \<or> c \<in> set ''0123456789''"
    using str_nat_chars by blast
  then show "\<not> is_space c"
  proof
    assume "c = CHR ''-''"
    then show ?thesis by (simp add: is_space_def)
  next
    assume "c \<in> set ''0123456789''"
    then show ?thesis by (rule digits_no_space)
  qed
qed

lemma value_str_whole_float:
  "is_integer f \<Longrightarrow> value_str float_repr (CFloat f) = str_int (int_of_float f)"
  by (simp add: value_str_def strip_without_space str_int_no_space)

lemma strip_decomposition:
  "\<exists>a b. s = a @ strip s @ b \<and> list_all is_space a \<and> list_all is_space b"
proof -
  let ?a = "takeWhile is_space s"
  let ?m = "dropWhile is_space s"
  let ?b = "rev (takeWhile is_space (rev ?m))"
  have "rev (takeWhile is_space (rev ?m) @ dropWhile is_space (rev ?m))
        = rev (dropWhile is_space (rev ?m)) @ ?b"
    by (rule rev_append)
  moreover have "takeWhile is_space (rev ?m) @ dropWhile is_space (rev ?m) = rev ?m"
    by (rule takeWhile_dropWhile_id)
  ultimately have "rev (rev ?m) = rev (dropWhile is_space (rev ?m)) @ ?b"
    by (simp only:)
  then have m: "?m = strip s @ ?b" by (simp only: rev_rev_ident strip_def)
  have "s = ?a @ ?m" by simp
  then have s: "s = ?a @ strip s @ ?b" using m by metis
  have a: "list_all is_space ?a" by (simp add: list_all_iff) (meson set_takeWhileD)
  have b: "list_all is_space ?b" by (simp add: list_all_iff) (meson set_takeWhileD)
  from s a b show ?thesis by blast
qed

lemma value_str_string: "value_str float_repr (CStr s) = strip s"
  by (simp add: value_str_def)

lemma value_str_integer: "value_str float_repr (CInt i) = str_int i"
  by (simp add: value_str_def strip_without_space str_int_no_space)

lemma value_str_fractional_float:
  "\<not> is_integer f \<Longrightarrow> value_str float_repr (CFloat f) = strip (float_repr f)"
  by (simp add: value_str_def)

text \<open>
  Claim C3. For a table in which every selected field is a column (and every row has one
  cell per column), generation returns one name per row, in row order. The name of a row
  is the template without its extension in which, field after field in the order of
  selection, every occurrence of the field name is replaced by the text of the row's
  value; nothing is appended. The text of a whole float is the text of its integer value,
  and the text of every value has no white space at either end. The text of a string cell
  is the string without the white space at its ends, the text of an integer cell is its
  decimal numeral, and the text of a float that is not whole is its printed form without
  the white space at its ends; stripping a string removes white space at its two ends and
  nothing else.
\<close>

theorem C3_generated_names:
  assumes "set cols \<subseteq> set (columns df)"
    and "\<forall>row \<in> set (rows df). length row = length (columns df)"
  shows "\<exists>generated.
           generate_formatted_names float_repr df cols format_string = Inr generated
         \<and> length generated = length (rows df)
         \<and> (\<forall>i < length (rows df).
              generated ! i
              = substituted_name float_repr (row_get (columns df) (rows df ! i)) cols
                  (fst (splitext format_string)))
         \<and> (\<forall>f. is_integer f \<longrightarrow> value_str float_repr (CFloat f) = str_int (int_of_float f))
         \<and> (\<forall>v. value_str float_repr v = []
                \<or> (\<not> is_space (hd (value_str float_repr v))
                    \<and> \<not> is_space (last (value_str float_repr v))))
         \<and> (\<forall>s. value_str float_repr (CStr s) = strip s)
         \<and> (\<forall>i. value_str float_repr (CInt i) = str_int i)
         \<and> (\<forall>f. \<not> is_integer f \<longrightarrow> value_str float_repr (CFloat f) = strip (float_repr f))
         \<and> (\<forall>s. \<exists>a b. s = a @ strip s @ b \<and> list_all is_space a \<and> list_all is_space b)"
proof -
  let ?g = "map (\<lambda>row. substituted_name float_repr (row_get (columns df) row) cols
                              (fst (splitext format_string))) (rows df)"
  have g: "generate_formatted_names float_repr df cols format_string = Inr ?g"
    using assms by (rule generate_substituted)
  have t: "value_str float_repr v = []
           \<or> (\<not> is_space (hd (value_str float_repr v))
               \<and> \<not> is_space (last (value_str float_repr v)))" for v
    unfolding value_str_def Let_def by (rule strip_trimmed)
  have l: "length ?g = length (rows df)" by simp
  have n: "\<forall>i < length (rows df).
              ?g ! i
              = substituted_name float_repr (row_get (columns df) (rows df ! i)) cols
                  (fst (splitext format_string))"
    by simp
  have w: "\<forall>f. is_integer f \<longrightarrow> value_str float_repr (CFloat f) = str_int (int_of_float f)"
    using value_str_whole_float by blast
  have t': "\<forall>v. value_str float_repr v = []
                \<or> (\<not> is_space (hd (value_str float_repr v))
                    \<and> \<not> is_space (last (value_str float_repr v)))"
    using t by blast
  have s: "\<forall>s. value_str float_repr (CStr s) = strip s"
    using value_str_string by blast
  have i: "\<forall>i. value_str float_repr (CInt i) = str_int i"
    using value_str_integer by blast
  have f: "\<forall>f. \<not> is_integer f \<longrightarrow> value_str float_repr (CFloat f) = strip (float_repr f)"
    using value_str_fractional_float by blast
  have d: "\<forall>s. \<exists>a b. s = a @ strip s @ b \<and> list_all is_space a \<and> list_all is_space b"
    using strip_decomposition by blast
  show ?thesis
    by (rule exI [of _ ?g]) (intro conjI g l n w t' s i f d)
qed

text \<open>
  The columns \<open>Year\<close>, \<open>Name\<close> and \<open>Id\<close> hold, in the first row, the float 2020.0, the
  string \<open>Alpha\<close> between two blanks and the integer -7, and in the second row the integer
  2021, the string \<open>Beta\<close> and the float 12.0: the template \<open>Year-Name_Id.pdf\<close> yields
  \<open>2020-Alpha_-7\<close> and \<open>2021-Beta_12\<close>, in this order. With the column \<open>Year\<close> alone, the
  templates \<open>Year-Report\<close> and \<open>Year-Report.pdf\<close> both yield \<open>2020-Report\<close>.
\<close>

theorem C3_generated_names_witness:
  "set [''Year'', ''Name'', ''Id'']
     \<subseteq> set (columns \<lparr>columns = [''Year'', ''Name'', ''Id''],
                       rows = [[CFloat (Dyadic 2020 0), CStr '' Alpha '', CInt (- 7)],
                               [CInt 2021, CStr ''Beta'', CFloat (Dyadic 48 2)]]\<rparr>)
   \<and> list_all (\<lambda>row. length row = 3)
        (rows \<lparr>columns = [''Year'', ''Name'', ''Id''],
               rows = [[CFloat (Dyadic 2020 0), CStr '' Alpha '', CInt (- 7)],
                       [CInt 2021, CStr ''Beta'', CFloat (Dyadic 48 2)]]\<rparr>)
   \<and> generate_formatted_names no_float_repr
        \<lparr>columns = [''Year'', ''Name'', ''Id''],
         rows = [[CFloat (Dyadic 2020 0), CStr '' Alpha '', CInt (- 7)],
                 [CInt 2021, CStr ''Beta'', CFloat (Dyadic 48 2)]]\<rparr>
        [''Year'', ''Name'', ''Id''] ''Year-Name_Id.pdf''
      = Inr [''2020-Alpha_-7'', ''2021-Beta_12'']
   \<and> value_str no_float_repr (CStr '' Alpha '') = ''Alpha''
   \<and> value_str no_float_repr (CInt (- 7)) = ''-7''
   \<and> value_str no_float_repr (CFloat (Dyadic 48 2)) = ''12''
   \<and> generate_formatted_names no_float_repr
        \<lparr>columns = [''Year''], rows = [[CFloat (Dyadic 2020 0)]]\<rparr> [''Year''] ''Year-Report''
      = Inr [''2020-Report'']
   \<and> generate_formatted_names no_float_repr
        \<lparr>columns = [''Year''], rows = [[CFloat (Dyadic 2020 0)]]\<rparr> [''Year''] ''Year-Report.pdf''
      = Inr [''2020-Report'']
   \<and> (\<exists>generated.
         generate_formatted_names no_float_repr
           \<lparr>columns = [''Year'', ''Name'', ''Id''],
            rows = [[CFloat (Dyadic 2020 0), CStr '' Alpha '', CInt (- 7)],
                    [CInt 2021, CStr ''Beta'', CFloat (Dyadic 48 2)]]\<rparr>
           [''Year'', ''Name'', ''Id''] ''Year-Name_Id.pdf''
         = Inr generated
       \<and> length generated = 2)"
proof -
  let ?df = "\<lparr>columns = [''Year'', ''Name'', ''Id''],
              rows = [[CFloat (Dyadic 2020 0), CStr '' Alpha '', CInt (- 7)],
                      [CInt 2021, CStr ''Beta'', CFloat (Dyadic 48 2)]]\<rparr>"
  let ?single = "\<lparr>columns = [''Year''], rows = [[CFloat (Dyadic 2020 0)]]\<rparr>"
  note vs = value_str_def strip_def is_space_def str_int_def str_nat.simps digit_char_def
  have h1: "set [''Year'', ''Name'', ''Id''] \<subseteq> set (columns ?df)"
    by simp
  have h2: "\<forall>row \<in> set (rows ?df). length row = length (columns ?df)" by simp
  have e1: "value_str no_float_repr (CFloat (Dyadic 2020 0)) = ''2020''" by (simp add: vs)
  have e2: "value_str no_float_repr (CStr '' Alpha '') = ''Alpha''" by (simp add: vs)
  have e3: "value_str no_float_repr (CInt (- 7)) = ''-7''" by (simp add: vs)
  have e4: "value_str no_float_repr (CInt 2021) = ''2021''" by (simp add: vs)
  have e5: "value_str no_float_repr (CStr ''Beta'') = ''Beta''" by (simp add: vs)
  have e6: "value_str no_float_repr (CFloat (Dyadic 48 2)) = ''12''" by (simp add: vs)
  have v: "generate_formatted_names no_float_repr ?df [''Year'', ''Name'', ''Id'']
             ''Year-Name_Id.pdf''
           = Inr [''2020-Alpha_-7'', ''2021-Beta_12'']"
    by (simp add: generate_formatted_names_def splitext_def rfind_def row_get_def
          e1 e2 e3 e4 e5 e6 replace_def)
  have v1: "generate_formatted_names no_float_repr ?single [''Year''] ''Year-Report''
            = Inr [''2020-Report'']"
    by (simp add: generate_formatted_names_def splitext_def rfind_def row_get_def e1 replace_def)
  have v2: "generate_formatted_names no_float_repr ?single [''Year''] ''Year-Report.pdf''
            = Inr [''2020-Report'']"
    by (simp add: generate_formatted_names_def splitext_def rfind_def row_get_def e1 replace_def)
  from C3_generated_names [OF h1 h2, of no_float_repr "''Year-Name_Id.pdf''"]
  have "\<exists>generated.
         generate_formatted_names no_float_repr ?df [''Year'', ''Name'', ''Id'']
           ''Year-Name_Id.pdf'' = Inr generated
       \<and> length generated = length (rows ?df)"
    by blast
  then have t: "\<exists>generated.
         generate_formatted_names no_float_repr ?df [''Year'', ''Name'', ''Id'']
           ''Year-Name_Id.pdf'' = Inr generated
       \<and> length generated = 2"
    by (simp add: numeral_2_eq_2)
  have h2': "list_all (\<lambda>row. length row = 3) (rows ?df)" by simp
  show ?thesis using h1 h2' v e2 e3 e6 v1 v2 t by (intro conjI)
qed

subsection \<open>The round trip of building and generating\<close>













subsection \<open>Discovery\<close>

lemma remdups_constant:
  assumes "xs \<noteq> []" "\<forall>x \<in> set xs. f x = e"
  shows "remdups (map f xs) = [e]"
  using assms
proof (induction xs)
  case Nil
  then show ?case by simp
next
  case (Cons x xs)
  show ?case
  proof (cases "xs = []")
    case True
    then show ?thesis using Cons.prems by simp
  next
    case False
    then have "remdups (map f xs) = [e]" using Cons by simp
    moreover have "f x \<in> set (map f xs)" using False Cons.prems(2) by (cases xs) auto
    ultimately show ?thesis by simp
  qed
qed

lemma natsorted_sorted: "sorted (map natsort_key (natsorted seq))"
  by (simp add: natsorted_def)

lemma natsorted_mset: "mset (natsorted seq) = mset seq"
  by (simp add: natsorted_def)

lemma natsorted_stable:
  "filter (\<lambda>p. natsort_key p = k) (natsorted seq) = filter (\<lambda>p. natsort_key p = k) seq"
  by (simp add: natsorted_def sort_key_stable)

lemmas natsort_eval =
  natsorted_def natsort_key_def nfd_def nfd_char_def nfd_table_def is_decimal_def
  superscript_digit_def is_plain_def int_of_digits_def less_chunk_def Let_def

lemma nfd_table_heads:
  "map_of nfd_table k = Some d \<Longrightarrow> 192 \<le> k \<and> d \<noteq> [] \<and> is_plain (hd d)"
  by (auto simp: nfd_table_def is_plain_def is_decimal_def superscript_digit_def split: if_splits)

lemma nfd_char_ascii: "(of_char c :: nat) < 128 \<Longrightarrow> nfd_char c = [of_char c]"
proof -
  assume a: "(of_char c :: nat) < 128"
  have "map_of nfd_table (of_char c) = None"
  proof (cases "map_of nfd_table (of_char c)")
    case None
    then show ?thesis .
  next
    case (Some d)
    then have "192 \<le> (of_char c :: nat)" using nfd_table_heads by blast
    with a show ?thesis by simp
  qed
  then show ?thesis by (simp add: nfd_char_def)
qed

lemma nfd_char_head:
  "\<not> is_digit c \<Longrightarrow> nfd_char c \<noteq> [] \<and> \<not> is_decimal (hd (nfd_char c))"
proof -
  assume nd: "\<not> is_digit c"
  show ?thesis
  proof (cases "map_of nfd_table (of_char c)")
    case None
    then show ?thesis using nd by (simp add: nfd_char_def is_digit_def is_decimal_def Let_def)
  next
    case (Some d)
    then have "d \<noteq> [] \<and> is_plain (hd d)" using nfd_table_heads by blast
    then show ?thesis using Some by (simp add: nfd_char_def is_plain_def)
  qed
qed

lemma nfd_ascii: "\<forall>c \<in> set s. (of_char c :: nat) < 128 \<Longrightarrow> nfd s = map of_char s"
  by (induction s) (simp_all add: nfd_def nfd_char_ascii)

lemma nfd_append: "nfd (a @ b) = nfd a @ nfd b"
  by (simp add: nfd_def)

lemma nfd_head:
  assumes "u = [] \<or> \<not> is_digit (hd u)"
  shows "nfd u = [] \<or> \<not> is_decimal (hd (nfd u))"
proof (cases u)
  case Nil
  then show ?thesis by (simp add: nfd_def)
next
  case (Cons c cs)
  then have "\<not> is_digit c" using assms by simp
  then have "nfd_char c \<noteq> [] \<and> \<not> is_decimal (hd (nfd_char c))" by (rule nfd_char_head)
  then show ?thesis using Cons by (simp add: nfd_def)
qed

lemma of_char_digit_char: "k < 10 \<Longrightarrow> (of_char (digit_char k) :: nat) = 48 + k"
proof -
  assume "k < 10"
  then have "k = 0 \<or> k = 1 \<or> k = 2 \<or> k = 3 \<or> k = 4 \<or> k = 5 \<or> k = 6 \<or> k = 7
    \<or> k = 8 \<or> k = 9" by arith
  then show ?thesis by (elim disjE) (simp_all add: digit_char_def)
qed

lemma int_of_digits_snoc: "int_of_digits (ds @ [d]) = 10 * int_of_digits ds + (d - 48)"
  by (simp add: int_of_digits_def)

lemma str_nat_value:
  "int_of_digits (map of_char (str_nat n)) = n
   \<and> str_nat n \<noteq> []
   \<and> (\<forall>c \<in> set (str_nat n). is_decimal (of_char c) \<and> (of_char c :: nat) < 128)"
proof (induction n rule: str_nat.induct)
  case (1 n)
  show ?case
  proof (cases "n < 10")
    case True
    then have s: "str_nat n = [digit_char n]" by (subst str_nat.simps) simp
    show ?thesis unfolding s using of_char_digit_char [OF True] True
      by (simp add: int_of_digits_def is_decimal_def)
  next
    case False
    then have s: "str_nat n = str_nat (n div 10) @ [digit_char (n mod 10)]"
      by (subst str_nat.simps) simp
    have m: "n mod 10 < 10" by simp
    have ih: "int_of_digits (map of_char (str_nat (n div 10))) = n div 10"
      "\<forall>c \<in> set (str_nat (n div 10)). is_decimal (of_char c) \<and> (of_char c :: nat) < 128"
      using 1 False by simp_all
    have "int_of_digits (map of_char (str_nat n)) = 10 * (n div 10) + n mod 10"
      unfolding s using ih(1) of_char_digit_char [OF m]
      by (simp add: int_of_digits_snoc)
    then have v: "int_of_digits (map of_char (str_nat n)) = n" by simp
    have d: "is_decimal (of_char (digit_char (n mod 10)))
             \<and> (of_char (digit_char (n mod 10)) :: nat) < 128"
    proof -
      have "n mod 10 \<le> 9" using m by linarith
      then show ?thesis using of_char_digit_char [OF m] by (simp add: is_decimal_def)
    qed
    show ?thesis using v ih(2) d unfolding s by simp
  qed
qed

lemma natsort_split_number:
  assumes "ds \<noteq> []" "\<forall>d \<in> set ds. is_decimal d" "r = [] \<or> \<not> is_decimal (hd r)"
  shows "natsort_split (ds @ r) = Num (int_of_digits ds) # natsort_split r"
proof -
  obtain d ds' where ds: "ds = d # ds'" using assms(1) by (cases ds) auto
  have all: "\<forall>x \<in> set ds'. is_decimal x" and d: "is_decimal d" using assms(2) ds by simp_all
  have tw: "takeWhile is_decimal r = []" and dw: "dropWhile is_decimal r = r"
    using assms(3) by (cases r; simp)+
  have t: "takeWhile is_decimal (ds' @ r) = ds'"
    using all tw by (simp add: takeWhile_append2)
  have dr: "dropWhile is_decimal (ds' @ r) = r"
    using all dw by (simp add: dropWhile_append2)
  show ?thesis unfolding ds using d t dr by simp
qed

lemma natsort_split_text:
  assumes "t \<noteq> []" "\<forall>c \<in> set t. is_plain c" "r = [] \<or> \<not> is_plain (hd r)"
  shows "natsort_split (t @ r) = Txt t # natsort_split r"
proof -
  obtain c cs where t: "t = c # cs" using assms(1) by (cases t) auto
  have all: "\<forall>x \<in> set cs. is_plain x" and c: "is_plain c" using assms(2) t by simp_all
  have tw: "takeWhile is_plain r = []" and dw: "dropWhile is_plain r = r"
    using assms(3) by (cases r; simp)+
  have tk: "takeWhile is_plain (cs @ r) = cs"
    using all tw by (simp add: takeWhile_append2)
  have dr: "dropWhile is_plain (cs @ r) = r"
    using all dw by (simp add: dropWhile_append2)
  have "\<not> is_decimal c" "superscript_digit c = None" using c by (simp_all add: is_plain_def)
  then show ?thesis unfolding t using tk dr by simp
qed

lemma sep_inserter_Txt: "sep_inserter (Txt a # rest) = Txt a # sep_inserter rest"
  by simp

lemma sep_inserter_Num:
  "\<exists>tl. \<forall>a. sep_inserter (Num a # rest) = Num a # tl"
proof (cases rest)
  case Nil
  then show ?thesis by simp
next
  case (Cons x xs)
  then show ?thesis by (cases x) simp_all
qed

lemma natsort_key_numbered:
  assumes "t \<noteq> []" "\<forall>c \<in> set t. (of_char c :: nat) < 128 \<and> \<not> is_digit c"
    and "u = [] \<or> \<not> is_digit (hd u)"
  shows "\<exists>tl. \<forall>n. natsort_key (t @ str_nat n @ u) = Txt (map of_char t) # Num n # tl"
proof -
  obtain tl where tl: "\<forall>a. sep_inserter (Num a # natsort_split (nfd u)) = Num a # tl"
    using sep_inserter_Num by blast
  have key: "natsort_key (t @ str_nat n @ u) = Txt (map of_char t) # Num n # tl" for n
  proof -
    let ?T = "map of_char t :: nat list"
    let ?D = "map of_char (str_nat n) :: nat list"
    note sv = str_nat_value [of n]
    have nt: "nfd t = ?T" using assms(2) by (intro nfd_ascii) simp
    have nd: "nfd (str_nat n) = ?D" using sv by (intro nfd_ascii) simp
    have n: "nfd (t @ str_nat n @ u) = ?T @ ?D @ nfd u" by (simp add: nfd_append nt nd)
    have dne: "?D \<noteq> []" using sv by simp
    have ddec: "\<forall>d \<in> set ?D. is_decimal d" using sv by simp
    have s1: "natsort_split (?D @ nfd u) = Num n # natsort_split (nfd u)"
      using natsort_split_number [OF dne ddec nfd_head [OF assms(3)]] sv by simp
    have tplain: "\<forall>c \<in> set ?T. is_plain c"
      using assms(2) by (auto simp: is_plain_def is_digit_def is_decimal_def superscript_digit_def)
    have "\<not> is_plain (hd (?D @ nfd u))"
      using dne ddec by (cases ?D) (auto simp: is_plain_def)
    then have s2: "natsort_split (?T @ ?D @ nfd u) = Txt ?T # natsort_split (?D @ nfd u)"
      using assms(1) tplain by (intro natsort_split_text) simp_all
    show ?thesis
      unfolding natsort_key_def Let_def n s2 s1 using tl by simp
  qed
  then show ?thesis by blast
qed

lemma natsort_numeric_order:
  assumes "t \<noteq> []" "\<forall>c \<in> set t. (of_char c :: nat) < 128 \<and> \<not> is_digit c"
    and "u = [] \<or> \<not> is_digit (hd u)"
  shows "(natsort_key (t @ str_nat m @ u) \<le> natsort_key (t @ str_nat n @ u)) = (m \<le> n)"
proof -
  from natsort_key_numbered [OF assms] obtain tl where
    k: "\<forall>n. natsort_key (t @ str_nat n @ u) = Txt (map of_char t) # Num n # tl" by blast
  show ?thesis unfolding k [rule_format] by (auto simp: less_chunk_def)
qed

text \<open>
  Claim C4. For a directory with at least two regular files whose suffixes, in lower case,
  are all the same extension \<open>e\<close>, with \<open>e\<close> in the allow-list taken in lower case, the
  scan returns the resolved paths of the regular files, each as often as it is listed,
  paired with \<open>e\<close>. The paths are in the order of their natural-sort keys, and paths
  with the same key keep the order of the listing. The key compares a run of digits by
  its value: two paths that differ only in a number, written after the same ASCII text
  without digits and before the same rest, are ordered as the two numbers are.
\<close>

theorem C4_discover:
  assumes "fs (str_path (Path dir_path)) = Directory entries"
    and "2 \<le> length (filter entry_is_file entries)"
    and "\<forall>file \<in> set (filter entry_is_file entries).
           lower (path_suffix (joinpath (Path dir_path) (entry_name file))) = e"
    and "e \<in> set (map lower allowed_extensions)"
  shows "\<exists>file_paths.
           get_file_paths_and_extension fs dir_path allowed_extensions = Inr (file_paths, e)
         \<and> mset file_paths = mset (map entry_resolved (filter entry_is_file entries))
         \<and> sorted (map natsort_key file_paths)
         \<and> (\<forall>k. filter (\<lambda>p. natsort_key p = k) file_paths
                = filter (\<lambda>p. natsort_key p = k) (map entry_resolved (filter entry_is_file entries)))
         \<and> (\<forall>t u m n.
               t \<noteq> [] \<and> (\<forall>c \<in> set t. (of_char c :: nat) < 128 \<and> \<not> is_digit c)
               \<and> (u = [] \<or> \<not> is_digit (hd u)) \<longrightarrow>
               (natsort_key (t @ str_nat m @ u) \<le> natsort_key (t @ str_nat n @ u)) = (m \<le> n))"
proof -
  let ?files = "filter entry_is_file entries"
  let ?paths = "natsorted (map entry_resolved ?files)"
  have ne: "?files \<noteq> []" using assms(2) by auto
  have ext: "remdups (map (\<lambda>file. lower (path_suffix (joinpath (Path dir_path) (entry_name file))))
                        ?files) = [e]"
    using ne assms(3) by (rule remdups_constant)
  have run: "get_file_paths_and_extension fs dir_path allowed_extensions = Inr (?paths, e)"
    unfolding get_file_paths_and_extension_def Let_def assms(1) node.case ext
    using ne assms(4) by simp
  have num: "\<forall>t u m n.
               t \<noteq> [] \<and> (\<forall>c \<in> set t. (of_char c :: nat) < 128 \<and> \<not> is_digit c)
               \<and> (u = [] \<or> \<not> is_digit (hd u)) \<longrightarrow>
               (natsort_key (t @ str_nat m @ u) \<le> natsort_key (t @ str_nat n @ u)) = (m \<le> n)"
    using natsort_numeric_order by blast
  have "get_file_paths_and_extension fs dir_path allowed_extensions = Inr (?paths, e)
         \<and> mset ?paths = mset (map entry_resolved ?files)
         \<and> sorted (map natsort_key ?paths)
         \<and> (\<forall>k. filter (\<lambda>p. natsort_key p = k) ?paths
                = filter (\<lambda>p. natsort_key p = k) (map entry_resolved ?files))"
    using run natsorted_mset [of "map entry_resolved ?files"]
      natsorted_sorted [of "map entry_resolved ?files"]
      natsorted_stable [of _ "map entry_resolved ?files"]
    by simp
  with num show ?thesis by (intro exI [of _ ?paths]) blast
qed


text \<open>
  The directory \<open>/d\<close> lists \<open>file10.PDF\<close> before \<open>file2.pdf\<close>; the scan returns
  \<open>file2\<close> first, and the key of \<open>file2\<close> is below the key of \<open>file10\<close>. A name with
  \<open>e\<close> acute (code point 233) sorts before \<open>z\<close>, since its normal form begins with \<open>e\<close>,
  and a superscript two (code point 178) is the number 2.
\<close>

theorem C4_discover_witness:
  "demo_fs (str_path (Path ''/d''))
     = Directory
         [\<lparr>entry_name = ''file10.PDF'', entry_is_file = True, entry_resolved = ''/d/file10.PDF''\<rparr>,
          \<lparr>entry_name = ''sub'', entry_is_file = False, entry_resolved = ''/d/sub''\<rparr>,
          \<lparr>entry_name = ''file2.pdf'', entry_is_file = True, entry_resolved = ''/d/file2.pdf''\<rparr>]
   \<and> get_file_paths_and_extension demo_fs ''/d'' [''.pdf'']
     = Inr ([''/d/file2.pdf'', ''/d/file10.PDF''], ''.pdf'')
   \<and> natsort_key ''/d/file2.pdf'' < natsort_key ''/d/file10.PDF''
   \<and> natsorted [''/d/z.pdf'', ''/d/'' @ [CHR 0xE9] @ ''.pdf'']
     = [''/d/'' @ [CHR 0xE9] @ ''.pdf'', ''/d/z.pdf'']
   \<and> natsort_key (''x'' @ [CHR 0xB2]) = [Txt [120], Num 2]
   \<and> (natsort_key (''/d/file'' @ str_nat 2 @ ''.pdf'')
        \<le> natsort_key (''/d/file'' @ str_nat 10 @ ''.pdf'')) = ((2::nat) \<le> 10)
   \<and> (\<exists>file_paths.
         get_file_paths_and_extension demo_fs ''/d'' [''.pdf''] = Inr (file_paths, ''.pdf'')
       \<and> sorted (map natsort_key file_paths))"
proof -
  let ?entries = "[\<lparr>entry_name = ''file10.PDF'', entry_is_file = True, entry_resolved = ''/d/file10.PDF''\<rparr>,
          \<lparr>entry_name = ''sub'', entry_is_file = False, entry_resolved = ''/d/sub''\<rparr>,
          \<lparr>entry_name = ''file2.pdf'', entry_is_file = True, entry_resolved = ''/d/file2.pdf''\<rparr>]"
  have p: "str_path (Path ''/d'') = ''/d''"
    by (simp add: Path_def splitroot_def str_path_def)
  have h1: "demo_fs (str_path (Path ''/d'')) = Directory ?entries"
    unfolding p by (simp add: demo_fs_def)
  have h2: "2 \<le> length (filter entry_is_file ?entries)" by simp
  have h3: "\<forall>file \<in> set (filter entry_is_file ?entries).
           lower (path_suffix (joinpath (Path ''/d'') (entry_name file))) = ''.pdf''"
    by (simp add: Path_def splitroot_def joinpath_def path_suffix_def path_name_def rfind_def
        lower_def lower_char_def)
  have h4: "''.pdf'' \<in> set (map lower [''.pdf''])"
    by (simp add: lower_def lower_char_def)
  have k: "natsort_key ''/d/file2.pdf'' < natsort_key ''/d/file10.PDF''"
    by (simp add: natsort_eval)
  have s: "natsorted [''/d/file10.PDF'', ''/d/file2.pdf''] = [''/d/file2.pdf'', ''/d/file10.PDF'']"
    by (simp add: natsort_eval)
  have acc: "natsorted [''/d/z.pdf'', ''/d/'' @ [CHR 0xE9] @ ''.pdf'']
     = [''/d/'' @ [CHR 0xE9] @ ''.pdf'', ''/d/z.pdf'']"
    by (simp add: natsort_eval)
  have sup: "natsort_key (''x'' @ [CHR 0xB2]) = [Txt [120], Num 2]"
    by (simp add: natsort_eval)
  from C4_discover [where fs = demo_fs and dir_path = "''/d''" and e = "''.pdf''"
      and allowed_extensions = "[''.pdf'']", OF h1 h2 h3 h4] obtain file_paths where
    r: "get_file_paths_and_extension demo_fs ''/d'' [''.pdf''] = Inr (file_paths, ''.pdf'')"
    and o: "sorted (map natsort_key file_paths)"
    and num: "\<forall>t u m n.
               t \<noteq> [] \<and> (\<forall>c \<in> set t. (of_char c :: nat) < 128 \<and> \<not> is_digit c)
               \<and> (u = [] \<or> \<not> is_digit (hd u)) \<longrightarrow>
               (natsort_key (t @ str_nat m @ u) \<le> natsort_key (t @ str_nat n @ u)) = (m \<le> n)"
    by blast
  have pre: "''/d/file'' \<noteq> [] \<and> (\<forall>c \<in> set ''/d/file''. (of_char c :: nat) < 128 \<and> \<not> is_digit c)
             \<and> (''.pdf'' = [] \<or> \<not> is_digit (hd ''.pdf''))"
    by (simp add: is_digit_def)
  have ord: "(natsort_key (''/d/file'' @ str_nat 2 @ ''.pdf'')
        \<le> natsort_key (''/d/file'' @ str_nat 10 @ ''.pdf'')) = ((2::nat) \<le> 10)"
    using num [rule_format, OF pre] .
  have v: "get_file_paths_and_extension demo_fs ''/d'' [''.pdf'']
     = Inr ([''/d/file2.pdf'', ''/d/file10.PDF''], ''.pdf'')"
    unfolding get_file_paths_and_extension_def Let_def h1 node.case
    by (simp add: Path_def splitroot_def joinpath_def path_suffix_def path_name_def rfind_def
        lower_def lower_char_def s)
  from r o have t: "\<exists>file_paths.
         get_file_paths_and_extension demo_fs ''/d'' [''.pdf''] = Inr (file_paths, ''.pdf'')
       \<and> sorted (map natsort_key file_paths)" by blast
  show ?thesis using h1 v k acc sup ord t by (intro conjI)
qed

subsection \<open>The wizard\<close>

text \<open>
  The stage index stays within 0 and 3 under \<^verbatim>\<open>change_page\<close>, which moves it by the
  given direction or not at all. The state of the Previous button is set only by
  \<^verbatim>\<open>update_buttons\<close>, which every change of the index runs, so a press on it moves one
  stage back. \<^verbatim>\<open>_get_next_button_state\<close> enables the Next button at the folder stage
  only when a folder is chosen and more than one file was found.
\<close>

lemma change_page_index_bounds:
  assumes "0 \<le> current_page_index app" "current_page_index app \<le> 3"
  shows "0 \<le> current_page_index (change_page direction app)
       \<and> current_page_index (change_page direction app) \<le> 3"
  using assms by (simp add: change_page_def update_buttons_def len_pages_def Let_def)

lemma change_page_step:
  "current_page_index (change_page direction app) = current_page_index app
   \<or> current_page_index (change_page direction app) = current_page_index app + direction"
  by (simp add: change_page_def update_buttons_def Let_def)

lemma change_page_buttons:
  assumes "prev_button app = get_prev_button_state app"
  shows "prev_button (change_page direction app) = get_prev_button_state (change_page direction app)"
  using assms
  by (simp add: change_page_def update_buttons_def Let_def get_prev_button_state_def)

lemma press_prev_moves:
  assumes "prev_button app = get_prev_button_state app" "prev_button app = NORMAL"
    and "current_page_index app \<le> 3"
  shows "current_page_index (press_prev app) = current_page_index app - 1"
  using assms
  by (simp add: press_prev_def change_page_def update_buttons_def Let_def len_pages_def
      get_prev_button_state_def split: if_splits)

lemma next_state_ready_at_start:
  assumes "get_next_button_state app = NORMAL" "current_page_index app = 0"
  shows "directory_path app \<noteq> DIRECTORY \<and> 1 < length (original_files_list app)"
  using assms by (simp add: get_next_button_state_def is_stage_ready_def split: if_splits)

lemmas discover_eval =
  get_file_paths_and_extension_def Path_def splitroot_def str_path_def joinpath_def
  path_suffix_def path_name_def rfind_def lower_def lower_char_def
  natsort_eval

declare load_original_names.simps [simp del]

lemma first_folder:
  "select_directory failing_split two_folders ''/big'' True [] initial_application
   = Some (after_first_folder, two_folders)"
proof -
  have d: "get_file_paths_and_extension two_folders ''/big'' [''.pdf'']
           = Inr ([''/big/a.pdf'', ''/big/b.pdf'', ''/big/c.pdf''], ''.pdf'')"
    by (simp add: discover_eval two_folders_def)
  show ?thesis
    unfolding select_directory_def
    apply (subst load_original_names.simps)
    apply (simp add: initial_application_def update_buttons_def d load_finish_def
        get_prev_button_state_def get_next_button_state_def is_stage_ready_def
        after_first_folder_def splitext_def rfind_def DIRECTORY_def EXCEL_def)
    done
qed

lemma second_folder:
  "select_directory failing_split two_folders ''/one'' True [Declined] after_first_folder
   = Some (after_declined_split, two_folders)"
proof -
  have d: "get_file_paths_and_extension two_folders ''/one'' [''.pdf'']
           = Inr ([''/one/only.pdf''], ''.pdf'')"
    by (simp add: discover_eval two_folders_def)
  show ?thesis
    unfolding select_directory_def
    apply (subst load_original_names.simps)
    apply (simp add: update_buttons_def d lower_def lower_char_def
        get_prev_button_state_def get_next_button_state_def is_stage_ready_def
        after_first_folder_def after_declined_split_def DIRECTORY_def EXCEL_def)
    done
qed

text \<open>
  Claim C8 asks that a forward step from the folder stage is enabled only when a folder
  has been chosen and more than one file was found. The Next button keeps the state that
  the last call of \<^verbatim>\<open>update_buttons\<close> gave it, and the branch of
  \<^verbatim>\<open>load_original_names\<close> that handles a declined split resets the folder and the file
  list without that call. The run: the user chooses \<open>/big\<close> (three documents), then chooses
  \<open>/one\<close> (a single document) and declines to split it. Afterwards no folder is chosen and
  the file list is empty, the stage is not ready, the Next button is still enabled, and a
  press on it moves the wizard to the second stage.
\<close>

theorem C8_next_button_stale:
  "select_directory failing_split two_folders ''/big'' True [] initial_application
     = Some (after_first_folder, two_folders)
   \<and> select_directory failing_split two_folders ''/one'' True [Declined] after_first_folder
     = Some (after_declined_split, two_folders)
   \<and> current_page_index after_declined_split = 0
   \<and> next_button after_declined_split = NORMAL
   \<and> directory_path after_declined_split = DIRECTORY
   \<and> length (original_files_list after_declined_split) = 0
   \<and> \<not> is_stage_ready after_declined_split
   \<and> current_page_index (press_next after_declined_split) = 1"
proof -
  have "current_page_index (press_next after_declined_split) = 1"
    by (simp add: press_next_def change_page_def update_buttons_def len_pages_def
        after_declined_split_def)
  moreover have "\<not> is_stage_ready after_declined_split"
    by (simp add: is_stage_ready_def after_declined_split_def)
  ultimately show ?thesis
    using first_folder second_folder by (simp add: after_declined_split_def)
qed

end
